theory Spec2Isabelle
  imports Main "HOL-Library.Sublist"
begin

section \<open>Values, schemas and event contracts\<close>

text \<open>
  Payloads are JavaScript values as far as the service looks at them. A schema is the
  validator's \<open>safeParse\<close>: it returns the normalised value or a failure. The validator
  (zod) and the transport (socket.io-client) are libraries outside the repository; the
  schema is a parameter of the service, the transport is modelled below by what the
  service calls on it.
\<close>

datatype val = VUndefined | VNull | VBool bool | VNum int | VStr string
  | VObj "(string \<times> val) list"

datatype parsed = Success val | Failure string

type_synonym schema = "val \<Rightarrow> parsed"

text \<open>types.ts: \<open>OnEvent = { response }\<close>, \<open>EmitEvent = { request, callback }\<close>,
  \<open>OnEvents\<close> and \<open>EmitEvents\<close> are records keyed by the event name.\<close>

record on_event =
  response :: schema

record emit_event =
  request :: schema
  callback :: schema

text \<open>types.ts \<open>SocketConfig\<close>: the service reads only \<open>url\<close>; every other field is
  handed to \<open>io\<close> unread. \<open>Partial<SocketConfig>\<close> may leave \<open>url\<close> out.\<close>

record socket_config =
  url :: string

record partial_config =
  url_opt :: "string option"

text \<open>utils/socket-config.ts reads the process environment; of it, the two variables
  that decide \<open>url\<close>.\<close>

record process_env =
  NODE_ENV :: "string option"
  NEXT_PUBLIC_SOCKET_URL :: "string option"

definition getSocketConfig :: "process_env \<Rightarrow> socket_config" where
  "getSocketConfig env =
     (let isDevelopment = (NODE_ENV env = Some ''development'');
          fallback = (if isDevelopment then ''http://localhost:3001'' else ''/'')
      in \<lparr>url = (case NEXT_PUBLIC_SOCKET_URL env of
                     None \<Rightarrow> fallback
                   | Some u \<Rightarrow> if u = [] then fallback else u)\<rparr>)"

text \<open>The constructor's arguments, which the service never reassigns: the caller's
  configuration, the two contracts, and the environment \<open>getSocketConfig\<close> reads. The
  three lifecycle callbacks of \<open>opt\<close> are the caller's functions; a call of one is
  recorded in the trace.\<close>

record params =
  config :: partial_config
  onEvents :: "string \<Rightarrow> on_event option"
  emitEvents :: "string \<Rightarrow> emit_event option"
  env :: process_env

section \<open>Function objects\<close>

text \<open>
  JavaScript compares functions by identity, and \<open>off\<close> removes a listener by
  identity. A function object is a value of \<open>fn\<close>; two are the same object iff they are
  equal.
  \<^item> \<open>Caller n\<close>: a function the caller supplies (a handler, an ack callback), named \<open>n\<close>.
  \<^item> \<open>WaitHandler e t p\<close>: the closure \<open>handler\<close> of \<open>waitFor\<close>, over the event, its timer
    and its promise.
  \<^item> \<open>Bare h\<close>: a handler passed to the transport as it is.
  \<^item> \<open>Wrapped i e h\<close>: the closure \<open>wrapped\<close> that \<open>on(e, h)\<close> creates; \<open>i\<close> numbers the
    closures, each call of \<open>on\<close> creates a new one.
  \<^item> \<open>OnceWrapped i e h\<close>: the closure \<open>once(e, h)\<close> passes to \<open>socket.once\<close>.
  \<^item> \<open>AckResolve p\<close>: \<open>(response) => resolve(response)\<close> of \<open>emitAsync\<close>, for promise \<open>p\<close>.
  \<^item> \<open>ConnectHook\<close>: the arrow function \<open>init\<close> attaches to \<open>connect\<close>;
    \<open>OptOnDisconnect\<close>, \<open>OptOnConnectError\<close>: the caller's \<open>opt\<close> callbacks.
\<close>

datatype handler = Caller nat | WaitHandler string nat nat

datatype fn = Bare handler | Wrapped nat string handler | OnceWrapped nat string handler
  | AckResolve nat | ConnectHook | OptOnDisconnect | OptOnConnectError

text \<open>A middleware is a caller's observer \<open>(event, data) => void\<close>: its name and
  whether it throws on an input.\<close>

datatype middleware = Middleware nat "string \<Rightarrow> val \<Rightarrow> bool"

section \<open>The transport, timers and promises\<close>

text \<open>
  A socket as the service uses it: the \<open>connected\<close> flag and the listeners attached
  with \<open>on\<close> and \<open>once\<close>, in the order of attachment (the flag marks a \<open>once\<close>
  listener). \<open>io(url, config)\<close> creates a new socket; the service state keeps every
  socket it created, \<open>this.socket\<close> is an index into them. A socket is an event
  emitter: \<open>on\<close> appends a listener, \<open>off(event, f)\<close> removes the first listener of the
  event that is the function \<open>f\<close>, and an event calls the listeners attached for it at
  that moment, in order; what a listener throws leaves the event emitter, and the
  listeners after it are not called. \<open>emit\<close> throws for the event names the socket
  reserves for itself. When a socket connects, loses its connection or receives an
  event is the environment's choice (section \<open>The environment\<close>). The caller's
  handlers, callbacks and middlewares are taken to return without calling back into the
  service; a middleware may throw, which \<open>runMiddlewares\<close> catches.
\<close>

record sock =
  connected :: bool
  bound :: "(string \<times> fn \<times> bool) list"

datatype error = TypeError string | ValidationFailed string | NotConnected string
  | Timeout string | ZodError string | ReservedEvent string

datatype promise = Pending | Resolved val | Rejected error

datatype timer_action = WaitTimeout string handler nat | BackoffInit

datatype timer_status = Scheduled | Fired | Cleared

record timer =
  action :: timer_action
  delay :: nat
  status :: timer_status

text \<open>What the service does to the outside, in order: calls of the transport's
  \<open>emit\<close> and \<open>disconnect\<close>, and calls of the caller's functions.\<close>

datatype effect =
    TransportEmit nat string "val list" "fn option"
  | TransportDisconnect nat
  | HandlerCall nat val
  | MiddlewareCall nat string val
  | OnConnect
  | OnDisconnect val
  | OnConnectError val

datatype console_entry = ConsoleError string string | ConsoleLog string string

section \<open>The service state\<close>

text \<open>
  The fields of \<open>SocketService\<close> (\<open>socket\<close>, \<open>_config\<close>, \<open>retryCount\<close>, \<open>debug\<close>,
  \<open>queue\<close>, \<open>listeners\<close>, \<open>middlewares\<close>), then the world around it: the sockets \<open>io\<close>
  created, the timers of \<open>setTimeout\<close>, the promises of \<open>emitAsync\<close> and of \<open>waitFor\<close>,
  the number of the next closure, the trace of effects and the console.
  \<open>listeners\<close> is a \<open>Map<string, Set<fn>>\<close>: both keep insertion order, so it is an
  association list of lists without duplicates. \<open>retryCount\<close> is a JavaScript number
  that starts at 0 and is only incremented: a natural number.
\<close>

record service =
  socket :: "nat option"
  resolved_config :: "socket_config option"
  retryCount :: nat
  debug :: bool
  queue :: "(string \<times> val list) list"
  listeners :: "(string \<times> fn list) list"
  middlewares :: "middleware list"
  sockets :: "sock list"
  timers :: "timer list"
  emitAsync_promises :: "promise list"
  waitFor_promises :: "promise list"
  next_closure :: nat
  trace :: "effect list"
  console :: "console_entry list"

definition new_service :: service where
  "new_service = \<lparr>socket = None, resolved_config = None, retryCount = 0, debug = False,
     queue = [], listeners = [], middlewares = [], sockets = [], timers = [],
     emitAsync_promises = [], waitFor_promises = [], next_closure = 0, trace = [],
     console = []\<rparr>"

subsection \<open>Exceptions\<close>

text \<open>A call returns, or throws: either way it leaves a state behind. What has been
  done before a throw stays done.\<close>

datatype outcome = Done (state_of: service) | Threw error (state_of: service)

definition and_then :: "outcome \<Rightarrow> (service \<Rightarrow> outcome) \<Rightarrow> outcome" where
  "and_then r f = (case r of Done s \<Rightarrow> f s | Threw err s \<Rightarrow> Threw err s)"

subsection \<open>Console, promises, timers\<close>

definition console_error :: "string \<Rightarrow> string \<Rightarrow> service \<Rightarrow> service" where
  "console_error tag e s = s\<lparr>console := console s @ [ConsoleError tag e]\<rparr>"

definition console_log :: "string \<Rightarrow> string \<Rightarrow> service \<Rightarrow> service" where
  "console_log tag e s = s\<lparr>console := console s @ [ConsoleLog tag e]\<rparr>"

text \<open>\<open>if (this.debug) console.log(...)\<close>\<close>

definition debug_log :: "string \<Rightarrow> string \<Rightarrow> service \<Rightarrow> service" where
  "debug_log tag e s = (if debug s then console_log tag e s else s)"

text \<open>A promise settles once: \<open>resolve\<close> and \<open>reject\<close> on a settled promise do nothing.\<close>

definition settle :: "promise list \<Rightarrow> nat \<Rightarrow> promise \<Rightarrow> promise list" where
  "settle ps p v = (if p < length ps \<and> ps ! p = Pending then ps[p := v] else ps)"

definition settle_async :: "nat \<Rightarrow> promise \<Rightarrow> service \<Rightarrow> service" where
  "settle_async p v s = s\<lparr>emitAsync_promises := settle (emitAsync_promises s) p v\<rparr>"

definition settle_wait :: "nat \<Rightarrow> promise \<Rightarrow> service \<Rightarrow> service" where
  "settle_wait p v s = s\<lparr>waitFor_promises := settle (waitFor_promises s) p v\<rparr>"

definition setTimeout :: "timer_action \<Rightarrow> nat \<Rightarrow> service \<Rightarrow> service" where
  "setTimeout a ms s =
     s\<lparr>timers := timers s @ [\<lparr>action = a, delay = ms, status = Scheduled\<rparr>]\<rparr>"

definition clearTimeout :: "nat \<Rightarrow> service \<Rightarrow> service" where
  "clearTimeout t s =
     (if t < length (timers s) \<and> status (timers s ! t) = Scheduled
      then s\<lparr>timers := (timers s)[t := (timers s ! t)\<lparr>status := Cleared\<rparr>]\<rparr>
      else s)"

subsection \<open>What the service calls on a socket\<close>

text \<open>The event names a socket.io client socket reserves: its \<open>emit\<close> throws
  \<open>"<name>" is a reserved event name\<close> for them, before anything is sent.\<close>

definition reserved_events :: "string list" where
  "reserved_events =
     [''connect'', ''connect_error'', ''disconnect'', ''disconnecting'', ''newListener'',
      ''removeListener'']"

definition reserved :: "string \<Rightarrow> bool" where
  "reserved e = (e \<in> set reserved_events)"

text \<open>\<open>socket.emit(event, ...args[, ack])\<close>: the call is recorded, unless the name is
  reserved.\<close>

definition sock_emit :: "nat \<Rightarrow> string \<Rightarrow> val list \<Rightarrow> fn option \<Rightarrow> service \<Rightarrow> outcome" where
  "sock_emit k e args ack s =
     (if reserved e then Threw (ReservedEvent e) s
      else Done (s\<lparr>trace := trace s @ [TransportEmit k e args ack]\<rparr>))"

text \<open>\<open>this.socket?.emit(...)\<close>: nothing happens when \<open>this.socket\<close> is null.\<close>

definition socket_emit :: "string \<Rightarrow> val list \<Rightarrow> fn option \<Rightarrow> service \<Rightarrow> outcome" where
  "socket_emit e args ack s =
     (case socket s of None \<Rightarrow> Done s | Some k \<Rightarrow> sock_emit k e args ack s)"

definition add_listener :: "string \<Rightarrow> fn \<Rightarrow> bool \<Rightarrow> sock \<Rightarrow> sock" where
  "add_listener e f once_flag so = so\<lparr>bound := bound so @ [(e, f, once_flag)]\<rparr>"

definition sock_on :: "nat \<Rightarrow> string \<Rightarrow> fn \<Rightarrow> service \<Rightarrow> service" where
  "sock_on k e f s =
     (if k < length (sockets s)
      then s\<lparr>sockets := (sockets s)[k := add_listener e f False (sockets s ! k)]\<rparr>
      else s)"

definition sock_once :: "nat \<Rightarrow> string \<Rightarrow> fn \<Rightarrow> service \<Rightarrow> service" where
  "sock_once k e f s =
     (if k < length (sockets s)
      then s\<lparr>sockets := (sockets s)[k := add_listener e f True (sockets s ! k)]\<rparr>
      else s)"

definition socket_on :: "string \<Rightarrow> fn \<Rightarrow> service \<Rightarrow> service" where
  "socket_on e f s = (case socket s of None \<Rightarrow> s | Some k \<Rightarrow> sock_on k e f s)"

definition socket_once :: "string \<Rightarrow> fn \<Rightarrow> service \<Rightarrow> service" where
  "socket_once e f s = (case socket s of None \<Rightarrow> s | Some k \<Rightarrow> sock_once k e f s)"

text \<open>\<open>socket.off(event, f)\<close> removes the first listener of \<open>event\<close> that is the
  function \<open>f\<close>.\<close>

fun remove_listener :: "string \<Rightarrow> fn \<Rightarrow> (string \<times> fn \<times> bool) list \<Rightarrow> (string \<times> fn \<times> bool) list" where
  "remove_listener e f [] = []"
| "remove_listener e f ((e', f', o') # ls) =
     (if e' = e \<and> f' = f then ls else (e', f', o') # remove_listener e f ls)"

definition sock_off :: "nat \<Rightarrow> string \<Rightarrow> fn \<Rightarrow> service \<Rightarrow> service" where
  "sock_off k e f s =
     (if k < length (sockets s)
      then s\<lparr>sockets := (sockets s)[k := (sockets s ! k)\<lparr>bound := remove_listener e f (bound (sockets s ! k))\<rparr>]\<rparr>
      else s)"

definition socket_off :: "string \<Rightarrow> fn \<Rightarrow> service \<Rightarrow> service" where
  "socket_off e f s = (case socket s of None \<Rightarrow> s | Some k \<Rightarrow> sock_off k e f s)"

text \<open>\<open>this.socket?.connected\<close> as a condition, and \<open>isConnected()\<close>.\<close>

definition isConnected :: "service \<Rightarrow> bool" where
  "isConnected s =
     (case socket s of None \<Rightarrow> False
      | Some k \<Rightarrow> k < length (sockets s) \<and> connected (sockets s ! k))"

section \<open>The methods of \<open>SocketService\<close>\<close>

subsection \<open>init\<close>

text \<open>\<open>{ ...defaultConfig, ...this.config }\<close>\<close>

definition merge_config :: "socket_config \<Rightarrow> partial_config \<Rightarrow> socket_config" where
  "merge_config d c = \<lparr>url = (case url_opt c of None \<Rightarrow> url d | Some u \<Rightarrow> u)\<rparr>"

text \<open>\<open>init()\<close>: the configuration is resolved on the first call only; \<open>io\<close> creates a
  new socket, which becomes \<open>this.socket\<close>, and the three lifecycle listeners are
  attached to it.\<close>

definition init :: "params \<Rightarrow> service \<Rightarrow> service" where
  "init P s =
     (let s1 = (case resolved_config s of
                  None \<Rightarrow> s\<lparr>resolved_config := Some (merge_config (getSocketConfig (env P)) (config P))\<rparr>
                | Some c \<Rightarrow> s);
          k = length (sockets s1);
          s2 = s1\<lparr>sockets := sockets s1 @ [\<lparr>connected = False, bound = []\<rparr>], socket := Some k\<rparr>
      in sock_on k ''connect_error'' OptOnConnectError
           (sock_on k ''disconnect'' OptOnDisconnect
             (sock_on k ''connect'' ConnectHook s2)))"

subsection \<open>Emit methods\<close>

text \<open>\<open>emit(event, data, callback?)\<close>. \<open>this.emitEvents[event].request\<close> throws a
  TypeError for an event that is not declared; what the socket's \<open>emit\<close> throws is not
  caught.\<close>

definition emit :: "params \<Rightarrow> string \<Rightarrow> val \<Rightarrow> nat option \<Rightarrow> service \<Rightarrow> outcome" where
  "emit P e d cb s =
     (case emitEvents P e of
        None \<Rightarrow> Threw (TypeError e) s
      | Some ev \<Rightarrow>
          (case request ev d of
             Failure z \<Rightarrow> Done (console_error ''[socket:emit] Validation failed for'' e s)
           | Success v \<Rightarrow>
               (let s1 = debug_log ''emit'' e s
                in case cb of
                     Some c \<Rightarrow> socket_emit e [v] (Some (Bare (Caller c))) s1
                   | None \<Rightarrow> socket_emit e [v] None s1)))"

text \<open>\<open>emitAsync(event, data)\<close> returns a promise: its number and the new state. The
  contract is read before the promise is made, so an undeclared event throws. Inside
  the promise's executor a throw of the socket's \<open>emit\<close> rejects the promise.\<close>

definition emitAsync :: "params \<Rightarrow> string \<Rightarrow> val \<Rightarrow> service \<Rightarrow> error + (nat \<times> service)" where
  "emitAsync P e d s =
     (case emitEvents P e of
        None \<Rightarrow> Inl (TypeError e)
      | Some ev \<Rightarrow>
          (let p = length (emitAsync_promises s);
               s0 = s\<lparr>emitAsync_promises := emitAsync_promises s @ [Pending]\<rparr>
           in Inr (p,
                case request ev d of
                  Failure z \<Rightarrow> settle_async p (Rejected (ValidationFailed e)) s0
                | Success v \<Rightarrow>
                    if \<not> isConnected s0
                    then settle_async p (Rejected (NotConnected e)) s0
                    else (case socket_emit e [v] (Some (AckResolve p))
                                 (debug_log ''emitAsync'' e s0) of
                            Done s1 \<Rightarrow> s1
                          | Threw err s1 \<Rightarrow> settle_async p (Rejected err) s1))))"

text \<open>\<open>emitQueued(event, data)\<close>: through \<open>emit\<close> when connected, else the entry
  \<open>{ event, data: [data] }\<close> is pushed as it is.\<close>

definition emitQueued :: "params \<Rightarrow> string \<Rightarrow> val \<Rightarrow> service \<Rightarrow> outcome" where
  "emitQueued P e d s =
     (if isConnected s then emit P e d None s
      else Done ((debug_log ''queued emit'' e s)\<lparr>queue := queue s @ [(e, [d])]\<rparr>))"

text \<open>\<open>flushQueue()\<close>: while the queue is not empty, shift its head and hand it to
  \<open>this.socket?.emit\<close>; a throw of \<open>emit\<close> ends the loop, after the shift.\<close>

function flushQueue :: "service \<Rightarrow> outcome" where
  "flushQueue s =
     (case queue s of
        [] \<Rightarrow> Done s
      | (e, d) # rest \<Rightarrow>
          (case socket_emit e d None (debug_log ''flushing queued emit'' e (s\<lparr>queue := rest\<rparr>)) of
             Done s1 \<Rightarrow> flushQueue s1
           | Threw err s1 \<Rightarrow> Threw err s1))"
  by pat_completeness auto
termination
  by (relation "measure (\<lambda>s. length (queue s))")
     (auto simp: socket_emit_def sock_emit_def debug_log_def console_log_def
           split: option.splits if_splits)

declare flushQueue.simps [simp del]

subsection \<open>Listeners\<close>

text \<open>\<open>Map.has\<close>, \<open>Map.set\<close> of a new key, and \<open>Map.get(e).add(f)\<close>.\<close>

definition map_has :: "string \<Rightarrow> (string \<times> fn list) list \<Rightarrow> bool" where
  "map_has e m = (e \<in> set (map fst m))"

definition set_add :: "fn \<Rightarrow> fn list \<Rightarrow> fn list" where
  "set_add f fs = (if f \<in> set fs then fs else fs @ [f])"

fun map_add :: "string \<Rightarrow> fn \<Rightarrow> (string \<times> fn list) list \<Rightarrow> (string \<times> fn list) list" where
  "map_add e f [] = []"
| "map_add e f ((e', fs) # m) =
     (if e' = e then (e', set_add f fs) # m else (e', fs) # map_add e f m)"

definition register_listener :: "string \<Rightarrow> fn \<Rightarrow> (string \<times> fn list) list \<Rightarrow> (string \<times> fn list) list" where
  "register_listener e f m =
     map_add e f (if \<not> map_has e m then m @ [(e, [])] else m)"

text \<open>The handlers the registry holds for an event.\<close>

definition registered :: "string \<Rightarrow> service \<Rightarrow> fn list" where
  "registered e s = concat (map snd (filter (\<lambda>en. fst en = e) (listeners s)))"

text \<open>\<open>on(event, handler)\<close>: a new closure \<open>wrapped\<close> is stored in the registry and
  attached to \<open>this.socket\<close> if there is one.\<close>

definition on :: "params \<Rightarrow> string \<Rightarrow> handler \<Rightarrow> service \<Rightarrow> error + service" where
  "on P e h s =
     (case onEvents P e of
        None \<Rightarrow> Inl (TypeError e)
      | Some oe \<Rightarrow>
          (let wrapped = Wrapped (next_closure s) e h;
               s1 = s\<lparr>next_closure := Suc (next_closure s),
                      listeners := register_listener e wrapped (listeners s)\<rparr>
           in Inr (socket_on e wrapped s1)))"

text \<open>\<open>once(event, handler)\<close>: the closure goes to \<open>this.socket?.once\<close> only.\<close>

definition once :: "params \<Rightarrow> string \<Rightarrow> handler \<Rightarrow> service \<Rightarrow> error + service" where
  "once P e h s =
     (case onEvents P e of
        None \<Rightarrow> Inl (TypeError e)
      | Some oe \<Rightarrow>
          Inr (socket_once e (OnceWrapped (next_closure s) e h)
                 (s\<lparr>next_closure := Suc (next_closure s)\<rparr>)))"

text \<open>\<open>off(event, callback)\<close>: \<open>this.socket?.off(event, callback)\<close>, with the callback
  as the caller passed it.\<close>

definition off :: "string \<Rightarrow> handler \<Rightarrow> service \<Rightarrow> service" where
  "off e h s = socket_off e (Bare h) s"

text \<open>\<open>rebindListeners()\<close>: every handler of every entry of the registry is attached
  to \<open>this.socket\<close>.\<close>

definition rebindListeners :: "service \<Rightarrow> service" where
  "rebindListeners s =
     fold (\<lambda>(e, hs) s1. fold (\<lambda>h s2. socket_on e h s2) hs s1) (listeners s) s"

subsection \<open>Middleware and debug\<close>

definition use :: "middleware \<Rightarrow> service \<Rightarrow> service" where
  "use mw s = s\<lparr>middlewares := middlewares s @ [mw]\<rparr>"

text \<open>One round of the loop of \<open>runMiddlewares\<close>: the observer is called; what it
  throws is caught and logged.\<close>

fun run_middleware :: "string \<Rightarrow> val \<Rightarrow> middleware \<Rightarrow> service \<Rightarrow> service" where
  "run_middleware e d (Middleware n throws) s =
     (let s1 = s\<lparr>trace := trace s @ [MiddlewareCall n e d]\<rparr>
      in if throws e d then console_error ''[socket:middleware] Failed on'' e s1 else s1)"

definition runMiddlewares :: "string \<Rightarrow> val \<Rightarrow> service \<Rightarrow> service" where
  "runMiddlewares e d s = fold (run_middleware e d) (middlewares s) s"

definition enableDebug :: "service \<Rightarrow> service" where
  "enableDebug s = s\<lparr>debug := True\<rparr>"

definition disableDebug :: "service \<Rightarrow> service" where
  "disableDebug s = s\<lparr>debug := False\<rparr>"

subsection \<open>Calling a function object\<close>

text \<open>The first argument of a call, \<open>undefined\<close> when there is none.\<close>

definition arg0 :: "val list \<Rightarrow> val" where
  "arg0 args = (case args of [] \<Rightarrow> VUndefined | a # _ \<Rightarrow> a)"

text \<open>
  A handler: the caller's function is called (the call is recorded); the closure
  \<open>handler\<close> of \<open>waitFor\<close> runs the middlewares, validates, and either clears its timer,
  calls \<open>off\<close> and resolves, or rejects with the validation error. A closure holds the
  schema it read from the contract when it was created; the contract never changes, so
  the schema is read from it here (the closure exists only for a declared event).
\<close>

fun call_handler :: "params \<Rightarrow> handler \<Rightarrow> val \<Rightarrow> service \<Rightarrow> service" where
  "call_handler P (Caller n) v s = s\<lparr>trace := trace s @ [HandlerCall n v]\<rparr>"
| "call_handler P (WaitHandler e t p) raw s =
     (let s1 = runMiddlewares e raw s
      in case onEvents P e of
           None \<Rightarrow> s1
         | Some oe \<Rightarrow>
             (case response oe raw of
                Success d \<Rightarrow>
                  settle_wait p (Resolved d) (off e (WaitHandler e t p) (clearTimeout t s1))
              | Failure z \<Rightarrow> settle_wait p (Rejected (ZodError z)) s1))"

text \<open>The body of \<open>wrapped\<close> (of \<open>on\<close>, and of the closure of \<open>once\<close>): middlewares,
  validation, then the handler on the parsed value, or an error on the console.\<close>

definition wrapped_body :: "params \<Rightarrow> string \<Rightarrow> string \<Rightarrow> handler \<Rightarrow> val \<Rightarrow> service \<Rightarrow> service" where
  "wrapped_body P tag e h raw s =
     (let s1 = runMiddlewares e raw s
      in case onEvents P e of
           None \<Rightarrow> s1
         | Some oe \<Rightarrow>
             (case response oe raw of
                Success d \<Rightarrow> call_handler P h d (debug_log tag e s1)
              | Failure z \<Rightarrow>
                  console_error (''[socket:'' @ tag @ ''] Validation failed for'') e s1))"

text \<open>Calling a function object. Of the closures only the \<open>connect\<close> listener of
  \<open>init\<close> can throw: \<open>this.flushQueue(); this.rebindListeners(); this.opt.onConnect()\<close>
  stops where \<open>flushQueue\<close> throws.\<close>

fun invoke :: "params \<Rightarrow> fn \<Rightarrow> val list \<Rightarrow> service \<Rightarrow> outcome" where
  "invoke P (Bare h) args s = Done (call_handler P h (arg0 args) s)"
| "invoke P (Wrapped i e h) args s = Done (wrapped_body P ''on'' e h (arg0 args) s)"
| "invoke P (OnceWrapped i e h) args s = Done (wrapped_body P ''once'' e h (arg0 args) s)"
| "invoke P (AckResolve p) args s = Done (settle_async p (Resolved (arg0 args)) s)"
| "invoke P ConnectHook args s =
     and_then (flushQueue s)
       (\<lambda>s1. let s2 = rebindListeners s1 in Done (s2\<lparr>trace := trace s2 @ [OnConnect]\<rparr>))"
| "invoke P OptOnDisconnect args s =
     Done (s\<lparr>trace := trace s @ [OnDisconnect (arg0 args)]\<rparr>)"
| "invoke P OptOnConnectError args s =
     Done (s\<lparr>trace := trace s @ [OnConnectError (arg0 args)]\<rparr>)"

subsection \<open>waitFor\<close>

text \<open>\<open>waitFor(event, timeoutMs = 5000)\<close>: inside the promise's executor the schema is
  read (a throw there rejects the promise), the timer is set, and \<open>handler\<close> is
  registered with \<open>on\<close>.\<close>

definition waitFor :: "params \<Rightarrow> string \<Rightarrow> nat option \<Rightarrow> service \<Rightarrow> nat \<times> service" where
  "waitFor P e timeoutMs s =
     (let p = length (waitFor_promises s);
          s0 = s\<lparr>waitFor_promises := waitFor_promises s @ [Pending]\<rparr>
      in case onEvents P e of
           None \<Rightarrow> (p, settle_wait p (Rejected (TypeError e)) s0)
         | Some oe \<Rightarrow>
             (let t = length (timers s0);
                  h = WaitHandler e t p;
                  s1 = setTimeout (WaitTimeout e h p)
                         (case timeoutMs of None \<Rightarrow> 5000 | Some ms \<Rightarrow> ms) s0
              in case on P e h s1 of
                   Inl err \<Rightarrow> (p, settle_wait p (Rejected err) s1)
                 | Inr s2 \<Rightarrow> (p, s2)))"

subsection \<open>reconnectWithBackoff\<close>

text \<open>\<open>this._config?.url\<close> as a condition: a configuration with a non-empty url.\<close>

definition has_url :: "service \<Rightarrow> bool" where
  "has_url s = (case resolved_config s of None \<Rightarrow> False | Some c \<Rightarrow> url c \<noteq> [])"

text \<open>\<open>reconnectWithBackoff()\<close>: the delay is computed from \<open>retryCount\<close> and a timer
  is set; the timer's callback is \<open>BackoffInit\<close>. On the numbers \<open>retryCount\<close> takes,
  \<open>Math.min(1000 * 2 ** retryCount, 30000)\<close> in floating point is the minimum below
  (a power of two times 1000 is exact, and an overflow to infinity still gives 30000).\<close>

definition reconnectWithBackoff :: "service \<Rightarrow> service" where
  "reconnectWithBackoff s =
     (if \<not> has_url s then s
      else setTimeout BackoffInit (min (1000 * 2 ^ retryCount s) 30000) s)"

section \<open>The environment\<close>

text \<open>A timer fires: its callback runs. For \<open>waitFor\<close>: \<open>this.off(event, handler)\<close>,
  then \<open>reject\<close> with the timeout error. For \<open>reconnectWithBackoff\<close>: a line on the
  console (the attempt number it prints is left out), \<open>this.init()\<close>, then
  \<open>this.retryCount++\<close>.\<close>

definition run_timer_action :: "params \<Rightarrow> timer_action \<Rightarrow> service \<Rightarrow> service" where
  "run_timer_action P a s =
     (case a of
        WaitTimeout e h p \<Rightarrow> settle_wait p (Rejected (Timeout e)) (off e h s)
      | BackoffInit \<Rightarrow>
          (let s1 = init P (console_log ''Reconnecting attempt'' [] s)
           in s1\<lparr>retryCount := retryCount s1 + 1\<rparr>))"

definition fire_timer :: "params \<Rightarrow> nat \<Rightarrow> service \<Rightarrow> service" where
  "fire_timer P t s =
     (if t < length (timers s) \<and> status (timers s ! t) = Scheduled
      then run_timer_action P (action (timers s ! t))
             (s\<lparr>timers := (timers s)[t := (timers s ! t)\<lparr>status := Fired\<rparr>]\<rparr>)
      else s)"

text \<open>An event fires on socket \<open>k\<close>: the listeners attached for it at that moment
  are called in order; a \<open>once\<close> listener is removed before its call; a listener that
  throws ends the round.\<close>

definition listeners_of :: "string \<Rightarrow> sock \<Rightarrow> (fn \<times> bool) list" where
  "listeners_of e so = map snd (filter (\<lambda>l. fst l = e) (bound so))"

fun fire_one :: "params \<Rightarrow> nat \<Rightarrow> string \<Rightarrow> val list \<Rightarrow> fn \<times> bool \<Rightarrow> service \<Rightarrow> outcome" where
  "fire_one P k e args (f, once_flag) s =
     invoke P f args (if once_flag then sock_off k e f s else s)"

fun fire_all :: "params \<Rightarrow> nat \<Rightarrow> string \<Rightarrow> val list \<Rightarrow> (fn \<times> bool) list \<Rightarrow> service \<Rightarrow> outcome" where
  "fire_all P k e args [] s = Done s"
| "fire_all P k e args (l # ls) s =
     and_then (fire_one P k e args l s) (fire_all P k e args ls)"

definition sock_fire :: "params \<Rightarrow> nat \<Rightarrow> string \<Rightarrow> val list \<Rightarrow> service \<Rightarrow> outcome" where
  "sock_fire P k e args s =
     (if k < length (sockets s)
      then fire_all P k e args (listeners_of e (sockets s ! k)) s
      else Done s)"

definition set_connected :: "nat \<Rightarrow> bool \<Rightarrow> service \<Rightarrow> service" where
  "set_connected k b s =
     (if k < length (sockets s)
      then s\<lparr>sockets := (sockets s)[k := (sockets s ! k)\<lparr>connected := b\<rparr>]\<rparr>
      else s)"

text \<open>Socket \<open>k\<close> connects: it is connected, then \<open>connect\<close> fires.\<close>

definition transport_connect :: "params \<Rightarrow> nat \<Rightarrow> service \<Rightarrow> outcome" where
  "transport_connect P k s = sock_fire P k ''connect'' [] (set_connected k True s)"

definition transport_disconnect :: "params \<Rightarrow> nat \<Rightarrow> val \<Rightarrow> service \<Rightarrow> outcome" where
  "transport_disconnect P k reason s =
     sock_fire P k ''disconnect'' [reason] (set_connected k False s)"

definition transport_connect_error :: "params \<Rightarrow> nat \<Rightarrow> val \<Rightarrow> service \<Rightarrow> outcome" where
  "transport_connect_error P k err s = sock_fire P k ''connect_error'' [err] s"

text \<open>The ack functions the transport was given, and the transport calling one of
  them with the peer's response.\<close>

fun ack_of :: "effect \<Rightarrow> fn option" where
  "ack_of (TransportEmit k e args ack) = ack"
| "ack_of (TransportDisconnect k) = None"
| "ack_of (HandlerCall n v) = None"
| "ack_of (MiddlewareCall n e v) = None"
| "ack_of OnConnect = None"
| "ack_of (OnDisconnect v) = None"
| "ack_of (OnConnectError v) = None"

definition transport_ack :: "params \<Rightarrow> fn \<Rightarrow> val \<Rightarrow> service \<Rightarrow> outcome" where
  "transport_ack P f v s =
     (if Some f \<in> set (map ack_of (trace s)) then invoke P f [v] s else Done s)"

section \<open>disconnect and reconnect\<close>

text \<open>\<open>socket.disconnect()\<close>: the call is recorded; a socket that is connected is no
  longer so and fires \<open>disconnect\<close> with the reason \<open>io client disconnect\<close> before the
  call returns.\<close>

definition sock_disconnect :: "params \<Rightarrow> nat \<Rightarrow> service \<Rightarrow> outcome" where
  "sock_disconnect P k s =
     (if k < length (sockets s)
      then (let s1 = s\<lparr>trace := trace s @ [TransportDisconnect k]\<rparr>
            in if connected (sockets s ! k)
               then sock_fire P k ''disconnect'' [VStr ''io client disconnect'']
                      (set_connected k False s1)
               else Done s1)
      else Done s)"

text \<open>\<open>disconnect()\<close>: \<open>this.socket?.disconnect(); this.socket = null\<close>\<close>

definition disconnect :: "params \<Rightarrow> service \<Rightarrow> outcome" where
  "disconnect P s =
     and_then (case socket s of None \<Rightarrow> Done s | Some k \<Rightarrow> sock_disconnect P k s)
       (\<lambda>s1. Done (s1\<lparr>socket := None\<rparr>))"

text \<open>\<open>reconnect()\<close>: \<open>if (this._config?.url) { this.disconnect(); this.init(); }\<close>\<close>

definition reconnect :: "params \<Rightarrow> service \<Rightarrow> outcome" where
  "reconnect P s =
     (if has_url s then and_then (disconnect P s) (\<lambda>s1. Done (init P s1)) else Done s)"

section \<open>Runs\<close>

text \<open>What can happen to a service: the caller calls a method, or the environment
  delivers something. After a step that throws, the run goes on from the state the
  throw left behind.\<close>

datatype op =
    Init
  | Emit string val "nat option"
  | EmitAsync string val
  | EmitQueued string val
  | On string nat
  | Once string nat
  | Off string nat
  | WaitFor string "nat option"
  | Use middleware
  | Disconnect
  | Reconnect
  | ReconnectWithBackoff
  | EnableDebug
  | DisableDebug
  | EnvConnect nat
  | EnvDisconnect nat val
  | EnvConnectError nat val
  | EnvEvent nat string "val list"
  | EnvAck fn val
  | EnvTimer nat

text \<open>\<open>on\<close> and \<open>once\<close> throw only at their first statement, before any change.\<close>

definition returned :: "service \<Rightarrow> error + service \<Rightarrow> service" where
  "returned s r = (case r of Inl err \<Rightarrow> s | Inr s1 \<Rightarrow> s1)"

fun step :: "params \<Rightarrow> op \<Rightarrow> service \<Rightarrow> service" where
  "step P Init s = init P s"
| "step P (Emit e d cb) s = state_of (emit P e d cb s)"
| "step P (EmitAsync e d) s = (case emitAsync P e d s of Inl err \<Rightarrow> s | Inr (p, s1) \<Rightarrow> s1)"
| "step P (EmitQueued e d) s = state_of (emitQueued P e d s)"
| "step P (On e n) s = returned s (on P e (Caller n) s)"
| "step P (Once e n) s = returned s (once P e (Caller n) s)"
| "step P (Off e n) s = off e (Caller n) s"
| "step P (WaitFor e ms) s = snd (waitFor P e ms s)"
| "step P (Use mw) s = use mw s"
| "step P Disconnect s = state_of (disconnect P s)"
| "step P Reconnect s = state_of (reconnect P s)"
| "step P ReconnectWithBackoff s = reconnectWithBackoff s"
| "step P EnableDebug s = enableDebug s"
| "step P DisableDebug s = disableDebug s"
| "step P (EnvConnect k) s = state_of (transport_connect P k s)"
| "step P (EnvDisconnect k reason) s = state_of (transport_disconnect P k reason s)"
| "step P (EnvConnectError k err) s = state_of (transport_connect_error P k err s)"
| "step P (EnvEvent k e args) s = state_of (sock_fire P k e args s)"
| "step P (EnvAck f v) s = state_of (transport_ack P f v s)"
| "step P (EnvTimer t) s = fire_timer P t s"

definition run :: "params \<Rightarrow> op list \<Rightarrow> service \<Rightarrow> service" where
  "run P ops s = fold (step P) ops s"

section \<open>The contracts of the test suite\<close>

text \<open>
  The repository's tests build the service with the url \<open>http://localhost:3000\<close>,
  the inbound event \<open>message\<close> with response \<open>z.object({ text: z.string() })\<close> and the
  outbound event \<open>sendMessage\<close> with the same schema as request and
  \<open>z.object({ success: z.boolean() })\<close> as callback. An object schema keeps the
  declared keys and drops the others.
\<close>

definition field :: "string \<Rightarrow> val \<Rightarrow> val option" where
  "field k v = (case v of VObj fs \<Rightarrow> map_of fs k | _ \<Rightarrow> None)"

definition text_schema :: schema where
  "text_schema v =
     (case field ''text'' v of
        Some (VStr t) \<Rightarrow> Success (VObj [(''text'', VStr t)])
      | _ \<Rightarrow> Failure ''text: expected string'')"

definition success_schema :: schema where
  "success_schema v =
     (case field ''success'' v of
        Some (VBool b) \<Rightarrow> Success (VObj [(''success'', VBool b)])
      | _ \<Rightarrow> Failure ''success: expected boolean'')"

text \<open>Two more schemas a caller can declare: \<open>z.object({ text: z.string().min(1) })\<close>,
  which refuses a value of its own static type, and
  \<open>z.string().transform((s) => s.length)\<close>, whose output is not one of its inputs.\<close>

definition nonempty_text_schema :: schema where
  "nonempty_text_schema v =
     (case field ''text'' v of
        Some (VStr t) \<Rightarrow>
          if t = [] then Failure ''text: too small'' else Success (VObj [(''text'', VStr t)])
      | _ \<Rightarrow> Failure ''text: expected string'')"

definition length_schema :: schema where
  "length_schema v =
     (case v of VStr t \<Rightarrow> Success (VNum (int (length t))) | _ \<Rightarrow> Failure ''expected string'')"

definition test_params :: params where
  "test_params =
     \<lparr>config = \<lparr>url_opt = Some ''http://localhost:3000''\<rparr>,
      onEvents = (\<lambda>e. if e = ''message'' then Some \<lparr>response = text_schema\<rparr> else None),
      emitEvents = (\<lambda>e. if e = ''sendMessage''
                         then Some \<lparr>request = text_schema, callback = success_schema\<rparr>
                         else None),
      env = \<lparr>NODE_ENV = None, NEXT_PUBLIC_SOCKET_URL = None\<rparr>\<rparr>"

text \<open>The same service with the stricter request schema, and with the transforming
  response schema.\<close>

definition strict_params :: params where
  "strict_params =
     test_params\<lparr>emitEvents := (\<lambda>e. if e = ''sendMessage''
        then Some \<lparr>request = nonempty_text_schema, callback = success_schema\<rparr>
        else None)\<rparr>"

definition transform_params :: params where
  "transform_params =
     test_params\<lparr>onEvents := (\<lambda>e. if e = ''message''
        then Some \<lparr>response = length_schema\<rparr> else None)\<rparr>"

text \<open>The test suite's contracts with one more outbound event, named \<open>disconnect\<close>,
  which the type \<open>EmitEvents\<close> admits and the socket reserves.\<close>

definition reserved_params :: params where
  "reserved_params =
     test_params\<lparr>emitEvents := (\<lambda>e. if e = ''sendMessage'' \<or> e = ''disconnect''
        then Some \<lparr>request = text_schema, callback = success_schema\<rparr>
        else None)\<rparr>"

definition transform_reserved_params :: params where
  "transform_reserved_params =
     reserved_params\<lparr>onEvents := (\<lambda>e. if e = ''message''
        then Some \<lparr>response = length_schema\<rparr> else None)\<rparr>"

definition text_payload :: "string \<Rightarrow> val" where
  "text_payload t = VObj [(''text'', VStr t)]"

section \<open>The loops in closed form\<close>

text \<open>\<open>flushQueue\<close> sends the entries before the first one with a reserved event name;
  at that entry, if there is one and the service holds a socket, the socket's \<open>emit\<close>
  throws.\<close>

definition sendable :: "(string \<times> val list) list \<Rightarrow> (string \<times> val list) list" where
  "sendable q = takeWhile (\<lambda>en. \<not> reserved (fst en)) q"

definition refused :: "(string \<times> val list) list \<Rightarrow> (string \<times> val list) list" where
  "refused q = dropWhile (\<lambda>en. \<not> reserved (fst en)) q"

text \<open>What \<open>flushQueue\<close> hands to socket \<open>k\<close> and writes to the console for a list of
  entries, the result of \<open>flushQueue\<close>, the listeners \<open>rebindListeners\<close> attaches for a
  registry, and attaching a list of listeners to \<open>this.socket\<close>.\<close>

definition flushed :: "nat \<Rightarrow> (string \<times> val list) list \<Rightarrow> effect list" where
  "flushed k q = map (\<lambda>(e, d). TransportEmit k e d None) q"

definition flush_logs :: "bool \<Rightarrow> (string \<times> val list) list \<Rightarrow> console_entry list" where
  "flush_logs dbg q =
     (if dbg then map (\<lambda>(e, d). ConsoleLog ''flushing queued emit'' e) q else [])"

definition flush_result :: "service \<Rightarrow> outcome" where
  "flush_result s =
     (case socket s of
        None \<Rightarrow> Done (s\<lparr>queue := [], console := console s @ flush_logs (debug s) (queue s)\<rparr>)
      | Some k \<Rightarrow>
          (case refused (queue s) of
             [] \<Rightarrow>
               Done (s\<lparr>queue := [], trace := trace s @ flushed k (queue s),
                        console := console s @ flush_logs (debug s) (queue s)\<rparr>)
           | en # rest \<Rightarrow>
               Threw (ReservedEvent (fst en))
                 (s\<lparr>queue := rest, trace := trace s @ flushed k (sendable (queue s)),
                     console := console s @ flush_logs (debug s) (sendable (queue s) @ [en])\<rparr>)))"

definition rebound :: "(string \<times> fn list) list \<Rightarrow> (string \<times> fn \<times> bool) list" where
  "rebound ls = concat (map (\<lambda>(e, hs). map (\<lambda>h. (e, h, False)) hs) ls)"

definition attach :: "(string \<times> fn \<times> bool) list \<Rightarrow> service \<Rightarrow> service" where
  "attach ls s =
     (case socket s of
        None \<Rightarrow> s
      | Some k \<Rightarrow>
          if k < length (sockets s)
          then s\<lparr>sockets := (sockets s)[k := (sockets s ! k)\<lparr>bound := bound (sockets s ! k) @ ls\<rparr>]\<rparr>
          else s)"

fun middleware_call :: "string \<Rightarrow> val \<Rightarrow> middleware \<Rightarrow> effect" where
  "middleware_call e d (Middleware n throws) = MiddlewareCall n e d"

fun middleware_throws :: "string \<Rightarrow> val \<Rightarrow> middleware \<Rightarrow> bool" where
  "middleware_throws e d (Middleware n throws) = throws e d"

section \<open>Predicates on states and runs\<close>

text \<open>The ack function of an \<open>emitAsync\<close> is handed to the transport's \<open>emit\<close> only; it
  is never attached as a listener nor stored in the registry. \<open>attached\<close> lists the
  functions that are.\<close>

fun is_ack :: "fn \<Rightarrow> bool" where
  "is_ack (AckResolve p) = True"
| "is_ack (Bare h) = False"
| "is_ack (Wrapped i e h) = False"
| "is_ack (OnceWrapped i e h) = False"
| "is_ack ConnectHook = False"
| "is_ack OptOnDisconnect = False"
| "is_ack OptOnConnectError = False"

definition bound_fns :: "sock list \<Rightarrow> fn list" where
  "bound_fns socks = concat (map (\<lambda>so. map (\<lambda>l. fst (snd l)) (bound so)) socks)"

definition attached :: "service \<Rightarrow> fn list" where
  "attached s = bound_fns (sockets s) @ concat (map snd (listeners s))"

definition acks_unbound :: "service \<Rightarrow> bool" where
  "acks_unbound s = (\<not> list_ex is_ack (attached s))"

text \<open>The handlers an association list holds under a key.\<close>

definition handlers_for :: "string \<Rightarrow> (string \<times> fn list) list \<Rightarrow> fn list" where
  "handlers_for e m = concat (map snd (filter (\<lambda>en. fst en = e) m))"

text \<open>The step in which the transport calls the ack function of promise \<open>p\<close>.\<close>

fun invokes_ack :: "nat \<Rightarrow> op \<Rightarrow> bool" where
  "invokes_ack p (EnvAck f v) = (f = AckResolve p)"
| "invokes_ack p _ = False"

text \<open>An entry with a reserved event name is in the queue.\<close>

definition reserved_queued :: "service \<Rightarrow> bool" where
  "reserved_queued s = list_ex (\<lambda>en. reserved (fst en)) (queue s)"

section \<open>Scenarios\<close>

text \<open>A second socket is current and not yet connected when the first one connects:
  \<open>init\<close>, then \<open>reconnectWithBackoff\<close> whose timer fires (\<open>init\<close> again, without a
  disconnect), then two queued emits, then \<open>connect\<close> on the first socket.\<close>

definition stale_connect_before :: service where
  "stale_connect_before =
     run test_params
       [Init, ReconnectWithBackoff, EnvTimer 0,
        EmitQueued ''sendMessage'' (text_payload ''a''),
        EmitQueued ''sendMessage'' (text_payload ''b'')]
       new_service"

definition stale_connect_after :: service where
  "stale_connect_after = step test_params (EnvConnect 0) stale_connect_before"

text \<open>Two emits queued after \<open>init\<close>, before the socket connects.\<close>

definition queued_twice :: service where
  "queued_twice =
     run test_params
       [Init, EmitQueued ''sendMessage'' (text_payload ''a''),
        EmitQueued ''sendMessage'' (text_payload ''b'')]
       new_service"

text \<open>With the request schema \<open>z.object({ text: z.string().min(1) })\<close>, the payload
  \<open>{ text: "" }\<close> is given to \<open>emitQueued\<close> before the socket connects, and in the
  second run after it has connected.\<close>

definition unvalidated_flush :: service where
  "unvalidated_flush =
     run strict_params [Init, EmitQueued ''sendMessage'' (text_payload []), EnvConnect 0]
       new_service"

definition validated_when_connected :: service where
  "validated_when_connected =
     run strict_params [Init, EnvConnect 0, EmitQueued ''sendMessage'' (text_payload [])]
       new_service"

text \<open>\<open>on("message", h)\<close> then \<open>off("message", h)\<close> on a connected service.\<close>

definition off_after_on :: service where
  "off_after_on =
     run test_params [Init, EnvConnect 0, On ''message'' 1, Off ''message'' 1] new_service"

text \<open>A middleware that only observes, and \<open>waitFor("message", 50)\<close> whose timer
  fires before any event.\<close>

definition observer :: middleware where
  "observer = Middleware 7 (\<lambda>e d. False)"

definition expired_waiter :: service where
  "expired_waiter =
     run test_params [Init, EnvConnect 0, Use observer, WaitFor ''message'' (Some 50), EnvTimer 0]
       new_service"

text \<open>The test suite's service before and after its socket connects.\<close>

definition async_disconnected :: service where
  "async_disconnected = run test_params [Init] new_service"

definition async_connected :: service where
  "async_connected = run test_params [Init, EnvConnect 0] new_service"

text \<open>A handler is registered on the connected service; the transport drops, the
  caller reconnects (a new socket), and nothing is registered again.\<close>

definition listening :: service where
  "listening = run test_params [Init, EnvConnect 0, On ''message'' 1] new_service"

definition reconnected :: service where
  "reconnected =
     run test_params [EnvDisconnect 0 (VStr ''transport close''), Reconnect] listening"




text \<open>The service holds no socket when an earlier one connects: \<open>init\<close>, then
  \<open>reconnectWithBackoff\<close> whose timer fires (a second socket), then \<open>disconnect()\<close>
  (the second socket is closed and the handle is null), then two queued emits, then
  \<open>connect\<close> on the first socket.\<close>

definition dropped_before :: service where
  "dropped_before =
     run test_params
       [Init, ReconnectWithBackoff, EnvTimer 0, Disconnect,
        EmitQueued ''sendMessage'' (text_payload ''a''),
        EmitQueued ''sendMessage'' (text_payload ''b'')]
       new_service"

definition dropped_after :: service where
  "dropped_after = step test_params (EnvConnect 0) dropped_before"

text \<open>With an emit event named \<open>disconnect\<close> in the contract: three emits are queued
  before the socket connects, the second of them with the reserved name.\<close>

definition reserved_in_queue :: service where
  "reserved_in_queue =
     run reserved_params
       [Init, EmitQueued ''sendMessage'' (text_payload ''a''),
        EmitQueued ''disconnect'' (text_payload ''b''),
        EmitQueued ''sendMessage'' (text_payload ''c'')]
       new_service"

text \<open>The same contract, the service connected.\<close>

definition reserved_connected :: service where
  "reserved_connected = run reserved_params [Init, EnvConnect 0] new_service"

text \<open>A handler is registered on the connected service; the transport drops, an emit
  with the reserved name is queued, and the caller reconnects; the new socket connects
  and a \<open>message\<close> event arrives on it.\<close>

definition reserved_reconnected :: service where
  "reserved_reconnected =
     run reserved_params
       [Init, EnvConnect 0, On ''message'' 1, EnvDisconnect 0 (VStr ''transport close''),
        EmitQueued ''disconnect'' (text_payload ''bye''), Reconnect]
       new_service"

definition reserved_reconnected_event :: service where
  "reserved_reconnected_event =
     run reserved_params [EnvConnect 1, EnvEvent 1 ''message'' [text_payload ''again'']]
       reserved_reconnected"


section \<open>Lemmas\<close>

lemmas prim_defs = console_error_def console_log_def debug_log_def settle_async_def
  settle_wait_def setTimeout_def clearTimeout_def sock_emit_def socket_emit_def sock_on_def
  sock_once_def socket_on_def socket_once_def sock_off_def socket_off_def
  set_connected_def off_def add_listener_def

lemma flushQueue_Nil: "queue s = [] \<Longrightarrow> flushQueue s = Done s"
  by (subst flushQueue.simps) simp

lemma flushQueue_Cons:
  "queue s = (e, d) # q \<Longrightarrow>
   flushQueue s =
     (case socket_emit e d None (debug_log ''flushing queued emit'' e (s\<lparr>queue := q\<rparr>)) of
        Done s1 \<Rightarrow> flushQueue s1
      | Threw err s1 \<Rightarrow> Threw err s1)"
  by (subst flushQueue.simps) simp

lemma flush_result_Nil: "queue s = [] \<Longrightarrow> flush_result s = Done s"
  by (simp add: flush_result_def refused_def flushed_def flush_logs_def split: option.splits)

lemma flushQueue_closed: "flushQueue s = flush_result s"
proof (induction "queue s" arbitrary: s)
  case Nil
  then have q: "queue s = []" by simp
  show ?case by (simp add: flushQueue_Nil [OF q] flush_result_Nil [OF q])
next
  case (Cons a q)
  obtain e d where a: "a = (e, d)" by (cases a)
  have qs: "queue s = (e, d) # q" using Cons.hyps(2) a by simp
  let ?s0 = "debug_log ''flushing queued emit'' e (s\<lparr>queue := q\<rparr>)"
  have q0: "queue ?s0 = q" by (simp add: prim_defs)
  show ?case
  proof (cases "socket s")
    case None
    have e1: "socket_emit e d None ?s0 = Done ?s0"
      using None by (simp add: prim_defs)
    have ih: "flushQueue ?s0 = flush_result ?s0"
      by (rule Cons.hyps(1)) (simp add: q0)
    show ?thesis
      unfolding flushQueue_Cons [OF qs] e1 outcome.case ih
      using None by (simp add: flush_result_def qs prim_defs flush_logs_def)
  next
    case (Some k)
    show ?thesis
    proof (cases "reserved e")
      case True
      have e1: "socket_emit e d None ?s0 = Threw (ReservedEvent e) ?s0"
        using Some True by (simp add: prim_defs)
      show ?thesis
        unfolding flushQueue_Cons [OF qs] e1
        using Some True
        by (simp add: flush_result_def qs prim_defs flush_logs_def refused_def sendable_def
            flushed_def)
    next
      case False
      let ?s1 = "?s0\<lparr>trace := trace ?s0 @ [TransportEmit k e d None]\<rparr>"
      have e1: "socket_emit e d None ?s0 = Done ?s1"
        using Some False by (simp add: prim_defs)
      have ih: "flushQueue ?s1 = flush_result ?s1"
        by (rule Cons.hyps(1)) (simp add: q0)
      show ?thesis
      proof (cases "dropWhile (\<lambda>en. \<not> reserved (fst en)) q")
        case Nil
        show ?thesis
          unfolding flushQueue_Cons [OF qs] e1 outcome.case ih
          using Some False
          by (simp add: Nil flush_result_def qs prim_defs flush_logs_def refused_def
              sendable_def flushed_def)
      next
        case (Cons en rest)
        show ?thesis
          unfolding flushQueue_Cons [OF qs] e1 outcome.case ih
          using Some False
          by (simp add: Cons flush_result_def qs prim_defs flush_logs_def refused_def
              sendable_def flushed_def)
      qed
    qed
  qed
qed

lemma socket_on_attach: "socket_on e h s = attach [(e, h, False)] s"
  by (simp add: attach_def prim_defs split: option.splits)

lemma attach_attach: "attach ys (attach xs s) = attach (xs @ ys) s"
  by (simp add: attach_def split: option.splits)

lemma attach_Nil: "attach [] s = s"
  by (simp add: attach_def split: option.splits)

lemma fold_socket_on:
  "fold (\<lambda>h s2. socket_on e h s2) hs s = attach (map (\<lambda>h. (e, h, False)) hs) s"
  by (induction hs arbitrary: s) (simp_all add: attach_Nil socket_on_attach attach_attach)

lemma fold_rebind:
  "fold (\<lambda>(e, hs) s1. fold (\<lambda>h s2. socket_on e h s2) hs s1) ls s = attach (rebound ls) s"
proof (induction ls arbitrary: s)
  case Nil
  then show ?case by (simp add: rebound_def attach_Nil)
next
  case (Cons a ls)
  obtain e hs where a: "a = (e, hs)" by (cases a)
  have r: "rebound (a # ls) = map (\<lambda>h. (e, h, False)) hs @ rebound ls"
    by (simp add: a rebound_def)
  have "fold (\<lambda>(e, hs) s1. fold (\<lambda>h s2. socket_on e h s2) hs s1) (a # ls) s
        = fold (\<lambda>(e, hs) s1. fold (\<lambda>h s2. socket_on e h s2) hs s1) ls
            (fold (\<lambda>h s2. socket_on e h s2) hs s)"
    by (simp add: a)
  also have "\<dots> = attach (rebound ls) (fold (\<lambda>h s2. socket_on e h s2) hs s)"
    by (rule Cons.IH)
  finally have "fold (\<lambda>(e, hs) s1. fold (\<lambda>h s2. socket_on e h s2) hs s1) (a # ls) s
        = attach (rebound ls) (attach (map (\<lambda>h. (e, h, False)) hs) s)"
    by (simp only: fold_socket_on)
  then show ?case by (simp add: attach_attach r)
qed

lemma rebindListeners_closed: "rebindListeners s = attach (rebound (listeners s)) s"
  by (simp add: rebindListeners_def fold_rebind)

lemma fold_run_middleware:
  "fold (run_middleware e d) mws s =
     s\<lparr>trace := trace s @ map (middleware_call e d) mws,
       console := console s @ map (\<lambda>mw. ConsoleError ''[socket:middleware] Failed on'' e)
                    (filter (middleware_throws e d) mws)\<rparr>"
proof (induction mws arbitrary: s)
  case Nil
  then show ?case by simp
next
  case (Cons mw mws)
  obtain n th where mw: "mw = Middleware n th" by (cases mw)
  show ?case
    unfolding mw by (simp add: Cons.IH console_error_def Let_def)
qed

lemma runMiddlewares_closed:
  "runMiddlewares e d s =
     s\<lparr>trace := trace s @ map (middleware_call e d) (middlewares s),
       console := console s @ map (\<lambda>mw. ConsoleError ''[socket:middleware] Failed on'' e)
                    (filter (middleware_throws e d) (middlewares s))\<rparr>"
  by (simp add: runMiddlewares_def fold_run_middleware)

lemmas body_defs = prim_defs flushQueue_closed rebindListeners_closed runMiddlewares_closed
  attach_def wrapped_body_def Let_def

lemmas eval_defs = run_def new_service_def init_def emit_def emitAsync_def emitQueued_def
  on_def once_def waitFor_def disconnect_def reconnect_def reconnectWithBackoff_def has_url_def
  use_def enableDebug_def disableDebug_def fire_timer_def run_timer_action_def
  sock_fire_def sock_disconnect_def listeners_of_def transport_connect_def
  transport_disconnect_def transport_connect_error_def transport_ack_def returned_def
  isConnected_def and_then_def reserved_def reserved_events_def
  register_listener_def map_has_def set_add_def registered_def arg0_def
  merge_config_def getSocketConfig_def body_defs flush_result_def sendable_def refused_def
  flushed_def flush_logs_def rebound_def reserved_queued_def
  test_params_def strict_params_def transform_params_def reserved_params_def
  transform_reserved_params_def text_payload_def
  text_schema_def success_schema_def nonempty_text_schema_def length_schema_def field_def
  settle_def

lemma init_new_service:
  "init test_params new_service =
     \<lparr>socket = Some 0, resolved_config = Some \<lparr>url = ''http://localhost:3000''\<rparr>,
      retryCount = 0, debug = False, queue = [], listeners = [], middlewares = [],
      sockets =
        [\<lparr>connected = False,
           bound = [(''connect'', ConnectHook, False), (''disconnect'', OptOnDisconnect, False),
                    (''connect_error'', OptOnConnectError, False)]\<rparr>],
      timers = [], emitAsync_promises = [], waitFor_promises = [], next_closure = 0,
      trace = [], console = []\<rparr>"
  by (simp add: eval_defs)

section \<open>The outbound queue\<close>

lemma stale_connect_before_eq:
  "stale_connect_before =
     \<lparr>socket = Some 1, resolved_config = Some \<lparr>url = ''http://localhost:3000''\<rparr>,
      retryCount = 1, debug = False,
      queue = [(''sendMessage'', [text_payload ''a'']), (''sendMessage'', [text_payload ''b''])],
      listeners = [], middlewares = [],
      sockets =
        [\<lparr>connected = False,
           bound = [(''connect'', ConnectHook, False), (''disconnect'', OptOnDisconnect, False),
                    (''connect_error'', OptOnConnectError, False)]\<rparr>,
         \<lparr>connected = False,
           bound = [(''connect'', ConnectHook, False), (''disconnect'', OptOnDisconnect, False),
                    (''connect_error'', OptOnConnectError, False)]\<rparr>],
      timers = [\<lparr>action = BackoffInit, delay = 1000, status = Fired\<rparr>],
      emitAsync_promises = [], waitFor_promises = [], next_closure = 0, trace = [],
      console = [ConsoleLog ''Reconnecting attempt'' []]\<rparr>"
  unfolding stale_connect_before_def by (simp add: eval_defs)

text \<open>
  C4, as the claim states it, fails. Two entries are queued while the current socket
  (socket 1) is not connected; the first socket then connects, its \<open>connect\<close> listener
  runs \<open>flushQueue\<close>, and both entries leave the queue through the \<open>emit\<close> of socket 1,
  which is not connected before the flush and not connected after it.
\<close>

theorem C4_flush_to_disconnected_socket:
  "queue stale_connect_before =
     [(''sendMessage'', [text_payload ''a'']), (''sendMessage'', [text_payload ''b''])]
   \<and> socket stale_connect_before = Some 1
   \<and> map connected (sockets stale_connect_before) = [False, False]
   \<and> queue stale_connect_after = []
   \<and> trace stale_connect_after =
       [TransportEmit 1 ''sendMessage'' [text_payload ''a''] None,
        TransportEmit 1 ''sendMessage'' [text_payload ''b''] None, OnConnect]
   \<and> map connected (sockets stale_connect_after) = [True, False]"
  unfolding stale_connect_after_def stale_connect_before_eq by (simp add: eval_defs)

lemma queued_twice_eq:
  "queued_twice =
     (init test_params new_service)
       \<lparr>queue := [(''sendMessage'', [text_payload ''a'']), (''sendMessage'', [text_payload ''b''])]\<rparr>"
  unfolding queued_twice_def by (simp add: eval_defs)

text \<open>
  C1, at the failing input: the request schema refuses \<open>{ text: "" }\<close>; given to
  \<open>emitQueued\<close> before the socket connects, the payload is queued unvalidated and the
  flush hands it to the transport's \<open>emit\<close>. The same call on a connected service goes
  through \<open>emit\<close>, which validates: nothing is sent and the error is logged.
\<close>

theorem C1_queued_payload_sent_unvalidated:
  "request (the (emitEvents strict_params ''sendMessage'')) (text_payload []) = Failure ''text: too small''
   \<and> trace unvalidated_flush = [TransportEmit 0 ''sendMessage'' [text_payload []] None, OnConnect]
   \<and> trace validated_when_connected = [OnConnect]
   \<and> console validated_when_connected
       = [ConsoleError ''[socket:emit] Validation failed for'' ''sendMessage'']"
  unfolding unvalidated_flush_def validated_when_connected_def by (simp add: eval_defs)

section \<open>off and waitFor\<close>

text \<open>
  C7, at the failing input: \<open>on("message", h)\<close> attaches the closure \<open>wrapped\<close>;
  \<open>off("message", h)\<close> asks the socket to remove \<open>h\<close>, which was never attached.
  The listener is still attached, and a \<open>message\<close> event calls \<open>h\<close>.
\<close>

theorem C7_off_leaves_the_listener_attached:
  "listeners_of ''message'' (sockets off_after_on ! 0) = [(Wrapped 0 ''message'' (Caller 1), False)]
   \<and> socket off_after_on = Some 0
   \<and> trace off_after_on = [OnConnect]
   \<and> trace (step test_params (EnvEvent 0 ''message'' [text_payload ''x'']) off_after_on)
       = [OnConnect, HandlerCall 1 (text_payload ''x'')]"
  unfolding off_after_on_def by (simp add: eval_defs)

text \<open>
  C6, at the failing input: \<open>waitFor("message", 50)\<close> times out and its promise is
  rejected with the timeout error, but the \<open>off\<close> of the timeout removes nothing: the
  waiter's closure stays in the registry and on the socket. A later \<open>message\<close> event
  runs it: the middleware is called once by \<open>wrapped\<close> and once more by the waiter's
  handler.
\<close>

theorem C6_expired_waiter_still_attached:
  "waitFor_promises expired_waiter = [Rejected (Timeout ''message'')]
   \<and> map status (timers expired_waiter) = [Fired]
   \<and> registered ''message'' expired_waiter = [Wrapped 0 ''message'' (WaitHandler ''message'' 0 0)]
   \<and> listeners_of ''message'' (sockets expired_waiter ! 0)
       = [(Wrapped 0 ''message'' (WaitHandler ''message'' 0 0), False)]
   \<and> trace expired_waiter = [OnConnect]
   \<and> trace (step test_params (EnvEvent 0 ''message'' [text_payload ''late'']) expired_waiter)
       = [OnConnect, MiddlewareCall 7 ''message'' (text_payload ''late''),
          MiddlewareCall 7 ''message'' (text_payload ''late'')]"
  unfolding expired_waiter_def by (simp add: eval_defs observer_def)

section \<open>reconnectWithBackoff\<close>

text \<open>
  C8, as the claim states it, fails: the call does not increment \<open>retryCount\<close>. After
  \<open>init\<close> the count is 0 and a call leaves it 0; a second call before the timer fires
  computes the same delay.
\<close>

theorem C8_retry_count_unchanged_by_the_call:
  "has_url (init test_params new_service)
   \<and> retryCount (init test_params new_service) = 0
   \<and> retryCount (reconnectWithBackoff (init test_params new_service)) = 0
   \<and> map delay (timers (reconnectWithBackoff (reconnectWithBackoff (init test_params new_service))))
       = [1000, 1000]"
  unfolding init_new_service by (simp add: eval_defs)

text \<open>
  C8, amended: with a configured address, \<open>reconnectWithBackoff\<close> sets a timer with the
  delay \<open>min(1000 * 2^retryCount, 30000)\<close> computed from the count at call time and
  changes nothing else; the count is as it was when the call returns. When the timer
  fires, its callback calls \<open>init\<close> (a new socket becomes the current one) and then
  increments the count by one.
\<close>

theorem C8_backoff_delay_and_deferred_increment:
  assumes "has_url s"
  shows "reconnectWithBackoff s =
           s\<lparr>timers := timers s @
               [\<lparr>action = BackoffInit, delay = min (1000 * 2 ^ retryCount s) 30000,
                 status = Scheduled\<rparr>]\<rparr>
     \<and> retryCount (reconnectWithBackoff s) = retryCount s
     \<and> retryCount (fire_timer P (length (timers s)) (reconnectWithBackoff s)) = retryCount s + 1
     \<and> socket (fire_timer P (length (timers s)) (reconnectWithBackoff s)) = Some (length (sockets s))
     \<and> length (sockets (fire_timer P (length (timers s)) (reconnectWithBackoff s)))
         = length (sockets s) + 1"
  using assms
  by (simp add: reconnectWithBackoff_def fire_timer_def run_timer_action_def init_def prim_defs
      Let_def has_url_def split: option.splits)

text \<open>The witness of C8: the first backoff after \<open>init\<close>.\<close>

theorem C8_backoff_delay_and_deferred_increment_witness:
  "has_url (init test_params new_service)
   \<and> map delay (timers (reconnectWithBackoff (init test_params new_service))) = [1000]
   \<and> retryCount (reconnectWithBackoff (init test_params new_service)) = 0
   \<and> retryCount (fire_timer test_params 0 (reconnectWithBackoff (init test_params new_service))) = 1
   \<and> socket (fire_timer test_params 0 (reconnectWithBackoff (init test_params new_service))) = Some 1"
proof -
  have h: "has_url (init test_params new_service)"
    by (simp add: init_new_service has_url_def)
  show ?thesis
    using C8_backoff_delay_and_deferred_increment [OF h, of test_params] h
    unfolding init_new_service by (simp add: eval_defs)
qed

section \<open>Frames: what a step leaves alone\<close>

subsection \<open>Outcomes\<close>

lemma and_then_Done [simp]: "and_then (Done s) f = f s"
  by (simp add: and_then_def)

lemma and_then_Threw [simp]: "and_then (Threw err s) f = Threw err s"
  by (simp add: and_then_def)

lemma and_then_fire_Nil [simp]: "and_then r (fire_all P k e args []) = r"
  by (cases r) simp_all

lemma and_then_keeps:
  assumes "Q (state_of r)" and "\<And>s. Q s \<Longrightarrow> Q (state_of (f s))"
  shows "Q (state_of (and_then r f))"
  using assms by (cases r) simp_all

lemma fire_all_keeps:
  assumes "Q s"
      and "\<And>l s. l \<in> set ls \<Longrightarrow> Q s \<Longrightarrow> Q (state_of (fire_one P k e args l s))"
  shows "Q (state_of (fire_all P k e args ls s))"
  using assms
proof (induction ls arbitrary: s)
  case Nil
  then show ?case by simp
next
  case (Cons l ls)
  have q1: "Q (state_of (fire_one P k e args l s))"
    using Cons.prems by simp
  show ?case
  proof (cases "fire_one P k e args l s")
    case (Done s1)
    have "Q s1" using q1 Done by simp
    then have "Q (state_of (fire_all P k e args ls s1))"
      using Cons.prems(2) by (intro Cons.IH) simp_all
    then show ?thesis using Done by simp
  next
    case (Threw err s1)
    then show ?thesis using q1 by simp
  qed
qed

lemma fire_all_append:
  "fire_all P k e args (xs @ ys) s = and_then (fire_all P k e args xs s) (fire_all P k e args ys)"
proof (induction xs arbitrary: s)
  case Nil
  then show ?case by simp
next
  case (Cons l xs)
  then show ?case by (cases "fire_one P k e args l s") simp_all
qed

lemma socket_emit_frame [simp]:
  "listeners (state_of (socket_emit e args ack s)) = listeners s"
  "sockets (state_of (socket_emit e args ack s)) = sockets s"
  "socket (state_of (socket_emit e args ack s)) = socket s"
  "queue (state_of (socket_emit e args ack s)) = queue s"
  "console (state_of (socket_emit e args ack s)) = console s"
  "emitAsync_promises (state_of (socket_emit e args ack s)) = emitAsync_promises s"
  by (simp_all add: prim_defs split: option.splits)

lemma flushQueue_frame [simp]:
  "listeners (state_of (flushQueue s)) = listeners s"
  "sockets (state_of (flushQueue s)) = sockets s"
  "socket (state_of (flushQueue s)) = socket s"
  "emitAsync_promises (state_of (flushQueue s)) = emitAsync_promises s"
  by (simp_all add: flushQueue_closed flush_result_def split: option.splits list.splits)

lemma connect_hook_state:
  "state_of (invoke P ConnectHook args s) =
     (case flushQueue s of
        Done s1 \<Rightarrow> (rebindListeners s1)\<lparr>trace := trace (rebindListeners s1) @ [OnConnect]\<rparr>
      | Threw err s1 \<Rightarrow> s1)"
  by (simp add: Let_def split: outcome.splits)

subsection \<open>settle\<close>

lemma length_settle [simp]: "length (settle ps p v) = length ps"
  by (simp add: settle_def)

lemma settle_other: "q \<noteq> p \<Longrightarrow> settle ps q v ! p = ps ! p"
  by (simp add: settle_def)

lemma settle_settled: "ps ! p \<noteq> Pending \<Longrightarrow> settle ps p v = ps"
  by (simp add: settle_def)

lemma settle_pending: "p < length ps \<Longrightarrow> ps ! p = Pending \<Longrightarrow> settle ps p v ! p = v"
  by (simp add: settle_def)

subsection \<open>listeners\<close>

lemma listeners_call_handler [simp]: "listeners (call_handler P h v s) = listeners s"
  by (cases h) (simp_all add: body_defs split: option.splits parsed.splits)

lemma listeners_invoke [simp]: "listeners (state_of (invoke P f args s)) = listeners s"
proof (cases f)
  case ConnectHook
  show ?thesis
    unfolding ConnectHook connect_hook_state
    using flushQueue_frame(1) [of s]
    by (cases "flushQueue s") (simp_all add: rebindListeners_closed attach_def split: option.splits)
qed (simp_all add: body_defs split: option.splits parsed.splits)

lemma listeners_fire_one [simp]:
  "listeners (state_of (fire_one P k e args l s)) = listeners s"
  by (cases l) (simp add: prim_defs)

lemma listeners_fire_all [simp]:
  "listeners (state_of (fire_all P k e args ls s)) = listeners s"
  by (rule fire_all_keeps [where Q = "\<lambda>s'. listeners s' = listeners s"]) simp_all

lemma listeners_sock_fire [simp]: "listeners (state_of (sock_fire P k e args s)) = listeners s"
  by (simp add: sock_fire_def)

lemma listeners_sock_disconnect [simp]:
  "listeners (state_of (sock_disconnect P k s)) = listeners s"
  by (simp add: sock_disconnect_def Let_def set_connected_def)

lemma listeners_disconnect [simp]: "listeners (state_of (disconnect P s)) = listeners s"
  unfolding disconnect_def
  by (rule and_then_keeps [where Q = "\<lambda>s'. listeners s' = listeners s"])
     (simp_all split: option.splits)

lemma listeners_init [simp]: "listeners (init P s) = listeners s"
  by (simp add: init_def prim_defs Let_def split: option.splits)

lemma listeners_reconnect [simp]: "listeners (state_of (reconnect P s)) = listeners s"
  unfolding reconnect_def
  by (cases "disconnect P s") (use listeners_disconnect [of P s] in simp_all)

lemma listeners_emit [simp]: "listeners (state_of (emit P e d cb s)) = listeners s"
  by (simp add: emit_def Let_def console_error_def debug_log_def console_log_def
      split: option.splits parsed.splits)

lemma listeners_emitQueued [simp]: "listeners (state_of (emitQueued P e d s)) = listeners s"
  by (simp add: emitQueued_def debug_log_def console_log_def)

lemma listeners_fire_timer [simp]: "listeners (fire_timer P t s) = listeners s"
  by (simp add: fire_timer_def run_timer_action_def prim_defs Let_def
      split: timer_action.splits option.splits)

subsection \<open>trace\<close>

lemma trace_socket_emit:
  "prefix t (trace s) \<Longrightarrow> prefix t (trace (state_of (socket_emit e args ack s)))"
  by (auto simp: prim_defs prefix_def split: option.splits)

lemma trace_flushQueue: "prefix t (trace s) \<Longrightarrow> prefix t (trace (state_of (flushQueue s)))"
  by (auto simp: flushQueue_closed flush_result_def prefix_def split: option.splits list.splits)

lemma trace_call_handler:
  "prefix t (trace s) \<Longrightarrow> prefix t (trace (call_handler P h v s))"
  by (cases h) (auto simp: body_defs prefix_def split: option.splits parsed.splits)

lemma trace_rebindListeners [simp]: "trace (rebindListeners s) = trace s"
  by (simp add: rebindListeners_closed attach_def split: option.splits)

lemma trace_invoke: "prefix t (trace s) \<Longrightarrow> prefix t (trace (state_of (invoke P f args s)))"
proof (cases f)
  case ConnectHook
  assume a: "prefix t (trace s)"
  show ?thesis
    unfolding ConnectHook connect_hook_state
    using trace_flushQueue [OF a]
    by (cases "flushQueue s") (auto simp: prefix_def)
qed (auto simp: body_defs prefix_def intro!: trace_call_handler [unfolded prefix_def]
      split: option.splits parsed.splits)

lemma trace_fire_one:
  "prefix t (trace s) \<Longrightarrow> prefix t (trace (state_of (fire_one P k e args l s)))"
  by (cases l) (auto simp: prim_defs intro!: trace_invoke)

lemma trace_fire_all:
  "prefix t (trace s) \<Longrightarrow> prefix t (trace (state_of (fire_all P k e args ls s)))"
  by (rule fire_all_keeps [where Q = "\<lambda>s'. prefix t (trace s')"]) (simp_all add: trace_fire_one)

lemma trace_sock_fire:
  "prefix t (trace s) \<Longrightarrow> prefix t (trace (state_of (sock_fire P k e args s)))"
  by (simp add: sock_fire_def trace_fire_all)

lemma trace_init [simp]: "trace (init P s) = trace s"
  by (simp add: init_def prim_defs Let_def split: option.splits)

lemma trace_sock_disconnect:
  "prefix t (trace s) \<Longrightarrow> prefix t (trace (state_of (sock_disconnect P k s)))"
  by (auto simp: sock_disconnect_def Let_def set_connected_def intro!: trace_sock_fire)

lemma trace_disconnect:
  "prefix t (trace s) \<Longrightarrow> prefix t (trace (state_of (disconnect P s)))"
  unfolding disconnect_def
  by (rule and_then_keeps [where Q = "\<lambda>s'. prefix t (trace s')"])
     (auto simp: trace_sock_disconnect split: option.splits)

lemma trace_reconnect:
  "prefix t (trace s) \<Longrightarrow> prefix t (trace (state_of (reconnect P s)))"
  unfolding reconnect_def
  by (cases "disconnect P s") (use trace_disconnect [of t s P] in auto)

lemma trace_emit: "prefix t (trace s) \<Longrightarrow> prefix t (trace (state_of (emit P e d cb s)))"
  by (auto simp: emit_def Let_def console_error_def debug_log_def console_log_def
      intro!: trace_socket_emit split: option.splits parsed.splits)

lemma trace_emitQueued:
  "prefix t (trace s) \<Longrightarrow> prefix t (trace (state_of (emitQueued P e d s)))"
  by (simp add: emitQueued_def trace_emit debug_log_def console_log_def)

lemma trace_emitAsync:
  "prefix t (trace s) \<Longrightarrow> emitAsync P e d s = Inr (p, s1) \<Longrightarrow> prefix t (trace s1)"
  by (auto simp: emitAsync_def prim_defs Let_def prefix_def
      split: option.splits parsed.splits if_splits)

lemma trace_step:
  assumes "prefix t (trace s)"
  shows "prefix t (trace (step P op s))"
proof (cases op)
  case (Emit e d cb)
  then show ?thesis using assms by (simp add: trace_emit)
next
  case (EmitAsync e d)
  then show ?thesis
    using assms trace_emitAsync [of t s P e d] by (auto split: sum.splits)
next
  case (EmitQueued e d)
  then show ?thesis using assms by (simp add: trace_emitQueued)
next
  case (On e n)
  then show ?thesis
    using assms by (auto simp: on_def returned_def prim_defs Let_def split: option.splits)
next
  case (Once e n)
  then show ?thesis
    using assms by (auto simp: once_def returned_def prim_defs Let_def split: option.splits)
next
  case (WaitFor e ms)
  then show ?thesis
    using assms by (auto simp: waitFor_def on_def prim_defs Let_def split: option.splits)
next
  case Disconnect
  then show ?thesis using assms by (simp add: trace_disconnect)
next
  case Reconnect
  then show ?thesis using assms by (simp add: trace_reconnect)
next
  case (EnvConnect k)
  then show ?thesis
    using assms by (auto simp: transport_connect_def prim_defs intro!: trace_sock_fire)
next
  case (EnvDisconnect k r)
  then show ?thesis
    using assms by (auto simp: transport_disconnect_def prim_defs intro!: trace_sock_fire)
next
  case (EnvConnectError k r)
  then show ?thesis
    using assms by (auto simp: transport_connect_error_def intro!: trace_sock_fire)
next
  case (EnvEvent k e args)
  then show ?thesis using assms by (simp add: trace_sock_fire)
next
  case (EnvAck f v)
  then show ?thesis using assms by (simp add: transport_ack_def trace_invoke)
next
  case (EnvTimer t)
  then show ?thesis
    using assms
    by (auto simp: fire_timer_def run_timer_action_def prim_defs Let_def
        split: timer_action.splits option.splits)
qed (use assms in \<open>simp_all add: reconnectWithBackoff_def use_def enableDebug_def
      disableDebug_def prim_defs split: option.splits\<close>)

lemma trace_run: "prefix t (trace s) \<Longrightarrow> prefix t (trace (run P ops s))"
  unfolding run_def by (induction ops arbitrary: s) (simp_all add: trace_step)

subsection \<open>What is attached\<close>

lemma set_bound_fns:
  "set (bound_fns socks) = (\<Union>so\<in>set socks. (\<lambda>l. fst (snd l)) ` set (bound so))"
  by (simp add: bound_fns_def)

lemma bound_fns_update:
  assumes "(\<lambda>l. fst (snd l)) ` set (bound x) \<subseteq> F \<union> set (bound_fns socks)"
  shows "set (bound_fns (socks[k := x])) \<subseteq> F \<union> set (bound_fns socks)"
proof
  fix f assume "f \<in> set (bound_fns (socks[k := x]))"
  then obtain so where so: "so \<in> set (socks[k := x])" and f: "f \<in> (\<lambda>l. fst (snd l)) ` set (bound so)"
    by (auto simp: set_bound_fns)
  from so have "so = x \<or> so \<in> set socks"
    using set_update_subset_insert [of socks k x] by auto
  then show "f \<in> F \<union> set (bound_fns socks)"
    using f assms by (auto simp: set_bound_fns)
qed

lemma bound_fns_nth:
  "k < length socks \<Longrightarrow> (\<lambda>l. fst (snd l)) ` set (bound (socks ! k)) \<subseteq> set (bound_fns socks)"
  unfolding set_bound_fns using nth_mem [of k socks] by blast

lemma set_remove_listener: "set (remove_listener e f ls) \<subseteq> set ls"
  by (induction ls) (auto split: if_splits)

lemma listeners_of_bound_fns:
  "k < length (sockets s) \<Longrightarrow> fst ` set (listeners_of e (sockets s ! k)) \<subseteq> set (bound_fns (sockets s))"
  by (force simp: listeners_of_def set_bound_fns)

lemma rebound_fns: "(\<lambda>l. fst (snd l)) ` set (rebound ls) = (\<Union>en\<in>set ls. set (snd en))"
  by (force simp: rebound_def)

text \<open>The listeners after a change of the sockets.\<close>

lemma att_sock_off: "set (bound_fns (sockets (sock_off k e f s))) \<subseteq> set (bound_fns (sockets s))"
proof (cases "k < length (sockets s)")
  case True
  have "set (bound_fns ((sockets s)[k := (sockets s ! k)\<lparr>bound := remove_listener e f (bound (sockets s ! k))\<rparr>]))
        \<subseteq> {} \<union> set (bound_fns (sockets s))"
    using bound_fns_nth [OF True] set_remove_listener [of e f "bound (sockets s ! k)"]
    by (intro bound_fns_update) auto
  then show ?thesis using True by (simp add: sock_off_def)
next
  case False
  then show ?thesis by (simp add: sock_off_def)
qed

lemma att_attach:
  "set (bound_fns (sockets (attach ls s))) \<subseteq> (\<lambda>l. fst (snd l)) ` set ls \<union> set (bound_fns (sockets s))"
proof (cases "socket s")
  case None
  then show ?thesis by (simp add: attach_def)
next
  case (Some k)
  show ?thesis
  proof (cases "k < length (sockets s)")
    case True
    have "set (bound_fns ((sockets s)[k := (sockets s ! k)\<lparr>bound := bound (sockets s ! k) @ ls\<rparr>]))
        \<subseteq> (\<lambda>l. fst (snd l)) ` set ls \<union> set (bound_fns (sockets s))"
      using bound_fns_nth [OF True] by (intro bound_fns_update) auto
    then show ?thesis using True Some by (simp add: attach_def)
  next
    case False
    then show ?thesis using Some by (simp add: attach_def)
  qed
qed

lemma att_connected:
  "set (bound_fns ((sockets s)[k := (sockets s ! k)\<lparr>connected := b\<rparr>])) \<subseteq> set (bound_fns (sockets s))"
proof (cases "k < length (sockets s)")
  case True
  have "set (bound_fns ((sockets s)[k := (sockets s ! k)\<lparr>connected := b\<rparr>]))
        \<subseteq> {} \<union> set (bound_fns (sockets s))"
    using bound_fns_nth [OF True] by (intro bound_fns_update) auto
  then show ?thesis by simp
next
  case False
  then show ?thesis by (simp add: list_update_beyond not_less)
qed

lemma set_attached:
  "set (attached s) = set (bound_fns (sockets s)) \<union> (\<Union>en\<in>set (listeners s). set (snd en))"
  by (simp add: attached_def)

text \<open>Steps that attach nothing.\<close>

lemma attached_plain [simp]:
  "attached (console_error tag e s) = attached s"
  "attached (console_log tag e s) = attached s"
  "attached (debug_log tag e s) = attached s"
  "attached (settle_async p v s) = attached s"
  "attached (settle_wait p v s) = attached s"
  "attached (setTimeout a ms s) = attached s"
  "attached (clearTimeout t s) = attached s"
  "attached (state_of (sock_emit k e args ack s)) = attached s"
  "attached (state_of (socket_emit e args ack s)) = attached s"
  "attached (runMiddlewares e d s) = attached s"
  "attached (state_of (flushQueue s)) = attached s"
  "attached (s\<lparr>trace := tr\<rparr>) = attached s"
  "attached (s\<lparr>queue := q\<rparr>) = attached s"
  "attached (s\<lparr>socket := so\<rparr>) = attached s"
  "attached (s\<lparr>retryCount := rc\<rparr>) = attached s"
  "attached (s\<lparr>middlewares := mws\<rparr>) = attached s"
  "attached (s\<lparr>debug := dbg\<rparr>) = attached s"
  "attached (s\<lparr>timers := ts\<rparr>) = attached s"
  "attached (s\<lparr>resolved_config := rc'\<rparr>) = attached s"
  "attached (s\<lparr>emitAsync_promises := ps1\<rparr>) = attached s"
  "attached (s\<lparr>waitFor_promises := ps2\<rparr>) = attached s"
  "attached (s\<lparr>next_closure := nc\<rparr>) = attached s"
  "attached (s\<lparr>console := co\<rparr>) = attached s"
  by (simp_all add: attached_def prim_defs runMiddlewares_closed split: option.splits)

lemma att_sock_off': "set (attached s) \<subseteq> A \<Longrightarrow> set (attached (sock_off k e f s)) \<subseteq> A"
proof -
  assume a: "set (attached s) \<subseteq> A"
  have "listeners (sock_off k e f s) = listeners s" by (simp add: sock_off_def)
  then show ?thesis
    using a att_sock_off [of k e f s] unfolding set_attached by auto
qed

lemma att_socket_off: "set (attached s) \<subseteq> A \<Longrightarrow> set (attached (socket_off e f s)) \<subseteq> A"
  by (simp add: socket_off_def att_sock_off' split: option.splits)

lemma att_off: "set (attached s) \<subseteq> A \<Longrightarrow> set (attached (off e h s)) \<subseteq> A"
  by (simp add: off_def att_socket_off)

lemma att_rebind:
  "set (attached s) \<subseteq> A \<Longrightarrow> set (attached (rebindListeners s)) \<subseteq> A"
proof -
  assume a: "set (attached s) \<subseteq> A"
  have l: "listeners (attach (rebound (listeners s)) s) = listeners s"
    by (simp add: attach_def split: option.splits)
  show ?thesis
    using a att_attach [of "rebound (listeners s)" s]
    unfolding rebindListeners_closed set_attached l rebound_fns by auto
qed

lemma att_set_connected:
  "set (attached s) \<subseteq> A \<Longrightarrow> set (attached (set_connected k b s)) \<subseteq> A"
  using att_connected [of s k b] by (auto simp: set_connected_def set_attached)

lemma att_sock_on:
  "set (attached s) \<subseteq> A \<Longrightarrow> f \<in> A \<Longrightarrow> set (attached (sock_on k e f s)) \<subseteq> A"
proof -
  assume a: "set (attached s) \<subseteq> A" and f: "f \<in> A"
  show ?thesis
  proof (cases "k < length (sockets s)")
    case True
    have "set (bound_fns ((sockets s)[k := add_listener e f False (sockets s ! k)]))
        \<subseteq> {f} \<union> set (bound_fns (sockets s))"
      using bound_fns_nth [OF True] by (intro bound_fns_update) (auto simp: add_listener_def)
    then show ?thesis using True a f by (auto simp: sock_on_def set_attached)
  next
    case False
    then show ?thesis using a by (simp add: sock_on_def)
  qed
qed

lemma att_sock_once:
  "set (attached s) \<subseteq> A \<Longrightarrow> f \<in> A \<Longrightarrow> set (attached (sock_once k e f s)) \<subseteq> A"
proof -
  assume a: "set (attached s) \<subseteq> A" and f: "f \<in> A"
  show ?thesis
  proof (cases "k < length (sockets s)")
    case True
    have "set (bound_fns ((sockets s)[k := add_listener e f True (sockets s ! k)]))
        \<subseteq> {f} \<union> set (bound_fns (sockets s))"
      using bound_fns_nth [OF True] by (intro bound_fns_update) (auto simp: add_listener_def)
    then show ?thesis using True a f by (auto simp: sock_once_def set_attached)
  next
    case False
    then show ?thesis using a by (simp add: sock_once_def)
  qed
qed

lemma att_call_handler:
  "set (attached s) \<subseteq> A \<Longrightarrow> set (attached (call_handler P h v s)) \<subseteq> A"
  by (cases h) (auto simp: Let_def intro!: att_off split: option.splits parsed.splits)

lemma att_invoke:
  "set (attached s) \<subseteq> A \<Longrightarrow> set (attached (state_of (invoke P f args s))) \<subseteq> A"
proof (cases f)
  case ConnectHook
  assume a: "set (attached s) \<subseteq> A"
  have b: "set (attached (state_of (flushQueue s))) \<subseteq> A" using a by simp
  show ?thesis
    unfolding ConnectHook connect_hook_state
    using b by (cases "flushQueue s") (simp_all add: att_rebind)
qed (auto simp: wrapped_body_def Let_def intro!: att_call_handler
      split: option.splits parsed.splits)

lemma att_fire_one:
  "set (attached s) \<subseteq> A \<Longrightarrow> set (attached (state_of (fire_one P k e args l s))) \<subseteq> A"
  by (cases l) (auto intro!: att_invoke att_sock_off')

lemma att_fire_all:
  "set (attached s) \<subseteq> A \<Longrightarrow> set (attached (state_of (fire_all P k e args ls s))) \<subseteq> A"
  by (rule fire_all_keeps [where Q = "\<lambda>s'. set (attached s') \<subseteq> A"])
     (simp_all add: att_fire_one)

lemma att_sock_fire:
  "set (attached s) \<subseteq> A \<Longrightarrow> set (attached (state_of (sock_fire P k e args s))) \<subseteq> A"
  by (simp add: sock_fire_def att_fire_all)

lemma att_sock_disconnect:
  "set (attached s) \<subseteq> A \<Longrightarrow> set (attached (state_of (sock_disconnect P k s))) \<subseteq> A"
  by (simp add: sock_disconnect_def Let_def att_sock_fire att_set_connected)

lemma att_disconnect:
  "set (attached s) \<subseteq> A \<Longrightarrow> set (attached (state_of (disconnect P s))) \<subseteq> A"
  unfolding disconnect_def
  by (rule and_then_keeps [where Q = "\<lambda>s'. set (attached s') \<subseteq> A"])
     (simp_all add: att_sock_disconnect split: option.splits)

lemma att_emit:
  "set (attached s) \<subseteq> A \<Longrightarrow> set (attached (state_of (emit P e d cb s))) \<subseteq> A"
  by (simp add: emit_def Let_def split: option.splits parsed.splits)

lemma att_emitQueued:
  "set (attached s) \<subseteq> A \<Longrightarrow> set (attached (state_of (emitQueued P e d s))) \<subseteq> A"
  by (simp add: emitQueued_def att_emit)

lemma att_emitAsync:
  "set (attached s) \<subseteq> A \<Longrightarrow> emitAsync P e d s = Inr (p, s1) \<Longrightarrow> set (attached s1) \<subseteq> A"
  by (auto simp: emitAsync_def Let_def prim_defs
      split: option.splits parsed.splits if_splits)

subsection \<open>The registry\<close>

lemma registered_handlers: "registered e s = handlers_for e (listeners s)"
  by (simp add: registered_def handlers_for_def)

lemma handlers_for_simps [simp]:
  "handlers_for e [] = []"
  "handlers_for e ((k, fs) # m) = (if k = e then fs @ handlers_for e m else handlers_for e m)"
  "handlers_for e (m @ m') = handlers_for e m @ handlers_for e m'"
  by (simp_all add: handlers_for_def)

lemma set_map_add:
  "g \<in> (\<Union>en\<in>set (map_add e f m). set (snd en)) \<Longrightarrow> g = f \<or> g \<in> (\<Union>en\<in>set m. set (snd en))"
proof (induction m)
  case Nil
  then show ?case by simp
next
  case (Cons a m)
  obtain k fs where a: "a = (k, fs)" by (cases a)
  show ?case
  proof (cases "k = e")
    case True
    then show ?thesis using Cons.prems by (auto simp: a set_add_def split: if_splits)
  next
    case False
    then show ?thesis using Cons by (auto simp: a)
  qed
qed

lemma set_register_listener:
  "(\<Union>en\<in>set (register_listener e f m). set (snd en)) \<subseteq> insert f (\<Union>en\<in>set m. set (snd en))"
proof
  fix g assume "g \<in> (\<Union>en\<in>set (register_listener e f m). set (snd en))"
  then have "g = f \<or> g \<in> (\<Union>en\<in>set (if \<not> map_has e m then m @ [(e, [])] else m). set (snd en))"
    unfolding register_listener_def by (rule set_map_add)
  then show "g \<in> insert f (\<Union>en\<in>set m. set (snd en))"
    by (auto split: if_splits)
qed

lemma map_add_keeps:
  "g \<in> set (handlers_for e' m) \<Longrightarrow> g \<in> set (handlers_for e' (map_add e f m))"
proof (induction m)
  case Nil
  then show ?case by simp
next
  case (Cons a m)
  obtain k fs where a: "a = (k, fs)" by (cases a)
  show ?case
    using Cons.prems Cons.IH by (auto simp: a set_add_def split: if_splits)
qed

lemma map_add_adds:
  "e \<in> fst ` set m \<Longrightarrow> f \<in> set (handlers_for e (map_add e f m))"
proof (induction m)
  case Nil
  then show ?case by simp
next
  case (Cons a m)
  obtain k fs where a: "a = (k, fs)" by (cases a)
  show ?case
    using Cons.prems Cons.IH by (auto simp: a set_add_def split: if_splits)
qed

lemma register_keeps:
  "g \<in> set (handlers_for e' m) \<Longrightarrow> g \<in> set (handlers_for e' (register_listener e f m))"
  unfolding register_listener_def by (rule map_add_keeps) simp

lemma register_adds: "f \<in> set (handlers_for e (register_listener e f m))"
  unfolding register_listener_def by (rule map_add_adds) (auto simp: map_has_def)

lemma registered_rebound:
  "f \<in> set (registered e s) \<Longrightarrow> (e, f, False) \<in> set (rebound (listeners s))"
  by (auto simp: registered_def rebound_def)

subsection \<open>No ack function is ever a listener\<close>

lemma att_init:
  assumes "set (attached s) \<subseteq> A" "ConnectHook \<in> A" "OptOnDisconnect \<in> A" "OptOnConnectError \<in> A"
  shows "set (attached (init P s)) \<subseteq> A"
proof -
  define s1 where "s1 = (case resolved_config s of
                  None \<Rightarrow> s\<lparr>resolved_config := Some (merge_config (getSocketConfig (env P)) (config P))\<rparr>
                | Some c \<Rightarrow> s)"
  define s2 where "s2 = s1\<lparr>sockets := sockets s1 @ [\<lparr>connected = False, bound = []\<rparr>], socket := Some (length (sockets s1))\<rparr>"
  have "attached s1 = attached s" by (simp add: s1_def split: option.splits)
  then have "set (attached s2) \<subseteq> A"
    using assms(1) by (simp add: s2_def attached_def bound_fns_def)
  then have "set (attached (sock_on (length (sockets s1)) ''connect_error'' OptOnConnectError
           (sock_on (length (sockets s1)) ''disconnect'' OptOnDisconnect
             (sock_on (length (sockets s1)) ''connect'' ConnectHook s2)))) \<subseteq> A"
    using assms by (intro att_sock_on)
  then show ?thesis by (simp add: init_def Let_def s1_def s2_def)
qed

lemma att_on:
  assumes "set (attached s) \<subseteq> A" "Wrapped (next_closure s) e h \<in> A" "on P e h s = Inr s1"
  shows "set (attached s1) \<subseteq> A"
proof -
  from assms(3) obtain oe where oe: "onEvents P e = Some oe" by (auto simp: on_def split: option.splits)
  let ?w = "Wrapped (next_closure s) e h"
  let ?s' = "s\<lparr>next_closure := Suc (next_closure s), listeners := register_listener e ?w (listeners s)\<rparr>"
  have s1: "s1 = socket_on e ?w ?s'" using assms(3) oe by (simp add: on_def Let_def)
  have "set (attached ?s') \<subseteq> A"
    using assms(1,2) set_register_listener [of e ?w "listeners s"]
    unfolding set_attached by (simp add: subset_iff) blast
  then show ?thesis
    unfolding s1 socket_on_def using assms(2) by (cases "socket s") (simp_all add: att_sock_on)
qed

lemma att_reconnect:
  assumes "set (attached s) \<subseteq> A" "ConnectHook \<in> A" "OptOnDisconnect \<in> A" "OptOnConnectError \<in> A"
  shows "set (attached (state_of (reconnect P s))) \<subseteq> A"
proof -
  have d: "set (attached (state_of (disconnect P s))) \<subseteq> A"
    using assms(1) by (rule att_disconnect)
  show ?thesis
    unfolding reconnect_def
    using d assms by (cases "disconnect P s") (simp_all add: att_init)
qed

lemma att_step:
  assumes "set (attached s) \<subseteq> {f. \<not> is_ack f}"
  shows "set (attached (step P op s)) \<subseteq> {f. \<not> is_ack f}"
proof (cases op)
  case Init
  then show ?thesis using assms by (simp add: att_init)
next
  case (Emit e d cb)
  then show ?thesis using assms by (simp add: att_emit)
next
  case (EmitAsync e d)
  then show ?thesis
    using assms att_emitAsync [of s "{f. \<not> is_ack f}" P e d]
    by (auto split: sum.splits)
next
  case (EmitQueued e d)
  then show ?thesis using assms by (simp add: att_emitQueued)
next
  case (On e n)
  then show ?thesis
    using assms att_on [of s "{f. \<not> is_ack f}" e "Caller n" P]
    by (auto simp: returned_def split: sum.splits)
next
  case (Once e n)
  then show ?thesis
    using assms
    by (simp add: once_def returned_def socket_once_def att_sock_once split: option.splits)
next
  case (Off e n)
  then show ?thesis using assms by (simp add: att_off)
next
  case (WaitFor e ms)
  show ?thesis
  proof (cases "onEvents P e")
    case None
    then show ?thesis using assms WaitFor by (simp add: waitFor_def Let_def)
  next
    case (Some oe)
    let ?s0 = "s\<lparr>waitFor_promises := waitFor_promises s @ [Pending]\<rparr>"
    let ?h = "WaitHandler e (length (timers ?s0)) (length (waitFor_promises s))"
    let ?s1 = "setTimeout (WaitTimeout e ?h (length (waitFor_promises s)))
                         (case ms of None \<Rightarrow> 5000 | Some ms \<Rightarrow> ms) ?s0"
    have a: "set (attached ?s1) \<subseteq> {f. \<not> is_ack f}" using assms by simp
    show ?thesis
    proof (cases "on P e ?h ?s1")
      case (Inl err)
      then show ?thesis using assms WaitFor Some by (simp add: waitFor_def Let_def)
    next
      case (Inr s2)
      have "set (attached s2) \<subseteq> {f. \<not> is_ack f}"
        using att_on [OF a _ Inr] by simp
      then show ?thesis using WaitFor Some Inr by (simp add: waitFor_def Let_def)
    qed
  qed
next
  case Disconnect
  then show ?thesis using assms by (simp add: att_disconnect)
next
  case Reconnect
  then show ?thesis using assms by (simp add: att_reconnect)
next
  case (EnvConnect k)
  then show ?thesis
    using assms by (simp add: transport_connect_def att_sock_fire att_set_connected)
next
  case (EnvDisconnect k r)
  then show ?thesis
    using assms by (simp add: transport_disconnect_def att_sock_fire att_set_connected)
next
  case (EnvConnectError k r)
  then show ?thesis
    using assms by (simp add: transport_connect_error_def att_sock_fire)
next
  case (EnvEvent k e args)
  then show ?thesis using assms by (simp add: att_sock_fire)
next
  case (EnvAck f v)
  then show ?thesis using assms by (simp add: transport_ack_def att_invoke)
next
  case (EnvTimer t)
  then show ?thesis
    using assms
    by (simp add: fire_timer_def run_timer_action_def Let_def att_off att_init
        split: timer_action.splits)
qed (use assms in \<open>simp_all add: reconnectWithBackoff_def use_def enableDebug_def
      disableDebug_def\<close>)

lemma acks_unbound_iff: "acks_unbound s \<longleftrightarrow> set (attached s) \<subseteq> {f. \<not> is_ack f}"
  by (auto simp: acks_unbound_def list_ex_iff)

lemma acks_unbound_step: "acks_unbound s \<Longrightarrow> acks_unbound (step P op s)"
  unfolding acks_unbound_iff by (rule att_step)

lemma acks_unbound_run: "acks_unbound s \<Longrightarrow> acks_unbound (run P ops s)"
  unfolding run_def by (induction ops arbitrary: s) (simp_all add: acks_unbound_step)

lemma acks_unbound_new: "acks_unbound new_service"
  by (simp add: acks_unbound_def attached_def bound_fns_def new_service_def)

subsection \<open>The promises of emitAsync\<close>

lemma ap_plain [simp]:
  "emitAsync_promises (console_error tag e s) = emitAsync_promises s"
  "emitAsync_promises (console_log tag e s) = emitAsync_promises s"
  "emitAsync_promises (debug_log tag e s) = emitAsync_promises s"
  "emitAsync_promises (settle_wait p v s) = emitAsync_promises s"
  "emitAsync_promises (setTimeout a ms s) = emitAsync_promises s"
  "emitAsync_promises (clearTimeout t s) = emitAsync_promises s"
  "emitAsync_promises (sock_on k e f s) = emitAsync_promises s"
  "emitAsync_promises (socket_on e f s) = emitAsync_promises s"
  "emitAsync_promises (sock_once k e f s) = emitAsync_promises s"
  "emitAsync_promises (socket_once e f s) = emitAsync_promises s"
  "emitAsync_promises (sock_off k e f s) = emitAsync_promises s"
  "emitAsync_promises (socket_off e f s) = emitAsync_promises s"
  "emitAsync_promises (off e h s) = emitAsync_promises s"
  "emitAsync_promises (set_connected k b s) = emitAsync_promises s"
  "emitAsync_promises (runMiddlewares e d s) = emitAsync_promises s"
  "emitAsync_promises (rebindListeners s) = emitAsync_promises s"
  "emitAsync_promises (init P s) = emitAsync_promises s"
  by (simp_all add: prim_defs rebindListeners_closed runMiddlewares_closed attach_def Let_def
      init_def split: option.splits)

lemma ap_call_handler [simp]:
  "emitAsync_promises (call_handler P h v s) = emitAsync_promises s"
  by (cases h) (simp_all add: Let_def split: option.splits parsed.splits)

lemma ap_invoke:
  "\<not> is_ack f \<Longrightarrow> emitAsync_promises (state_of (invoke P f args s)) = emitAsync_promises s"
proof (cases f)
  case ConnectHook
  show ?thesis
    unfolding ConnectHook connect_hook_state
    using flushQueue_frame(4) [of s] by (cases "flushQueue s") simp_all
qed (simp_all add: wrapped_body_def Let_def split: option.splits parsed.splits)

lemma ap_invoke_ack:
  "emitAsync_promises (state_of (invoke P (AckResolve q) args s))
     = settle (emitAsync_promises s) q (Resolved (arg0 args))"
  by (simp add: settle_async_def)

lemma ap_fire_one:
  "\<not> is_ack (fst l)
   \<Longrightarrow> emitAsync_promises (state_of (fire_one P k e args l s)) = emitAsync_promises s"
  by (cases l) (simp add: ap_invoke)

lemma ap_fire_all:
  "\<forall>l\<in>set ls. \<not> is_ack (fst l)
   \<Longrightarrow> emitAsync_promises (state_of (fire_all P k e args ls s)) = emitAsync_promises s"
  by (rule fire_all_keeps [where Q = "\<lambda>s'. emitAsync_promises s' = emitAsync_promises s"])
     (simp_all add: ap_fire_one)

lemma ap_sock_fire:
  assumes "acks_unbound s"
  shows "emitAsync_promises (state_of (sock_fire P k e args s)) = emitAsync_promises s"
proof (cases "k < length (sockets s)")
  case True
  have "\<forall>l\<in>set (listeners_of e (sockets s ! k)). \<not> is_ack (fst l)"
    using assms listeners_of_bound_fns [OF True, of e]
    unfolding acks_unbound_iff set_attached by auto
  then show ?thesis using True by (simp add: sock_fire_def ap_fire_all)
next
  case False
  then show ?thesis by (simp add: sock_fire_def)
qed

lemma acks_unbound_set_connected: "acks_unbound s \<Longrightarrow> acks_unbound (set_connected k b s)"
  unfolding acks_unbound_iff by (rule att_set_connected)

lemma ap_sock_disconnect:
  assumes "acks_unbound s"
  shows "emitAsync_promises (state_of (sock_disconnect P k s)) = emitAsync_promises s"
proof -
  have "acks_unbound (set_connected k False (s\<lparr>trace := trace s @ [TransportDisconnect k]\<rparr>))"
    using assms by (intro acks_unbound_set_connected) (simp add: acks_unbound_def)
  then show ?thesis by (simp add: sock_disconnect_def Let_def ap_sock_fire)
qed

lemma ap_disconnect:
  assumes "acks_unbound s"
  shows "emitAsync_promises (state_of (disconnect P s)) = emitAsync_promises s"
  unfolding disconnect_def
  by (rule and_then_keeps [where Q = "\<lambda>s'. emitAsync_promises s' = emitAsync_promises s"])
     (simp_all add: ap_sock_disconnect [OF assms] split: option.splits)

lemma ap_reconnect:
  assumes "acks_unbound s"
  shows "emitAsync_promises (state_of (reconnect P s)) = emitAsync_promises s"
  unfolding reconnect_def
  using ap_disconnect [OF assms, of P] by (cases "disconnect P s") simp_all

lemma ap_emit: "emitAsync_promises (state_of (emit P e d cb s)) = emitAsync_promises s"
  by (simp add: emit_def Let_def split: option.splits parsed.splits)

lemma ap_emitQueued: "emitAsync_promises (state_of (emitQueued P e d s)) = emitAsync_promises s"
  by (simp add: emitQueued_def ap_emit debug_log_def console_log_def)

text \<open>\<open>emitAsync\<close> appends one promise and leaves the others alone.\<close>

lemma ap_emitAsync:
  assumes "emitAsync P e d s = Inr (q, s1)"
  shows "length (emitAsync_promises s1) = length (emitAsync_promises s) + 1"
    and "p < length (emitAsync_promises s)
         \<Longrightarrow> emitAsync_promises s1 ! p = emitAsync_promises s ! p"
  using assms
  by (auto simp: emitAsync_def Let_def prim_defs settle_def nth_append
      split: option.splits parsed.splits if_splits)

text \<open>A step appends to the promises of \<open>emitAsync\<close> and changes an existing one only
  by calling its ack function.\<close>

lemma ap_step:
  assumes "acks_unbound s"
  shows "length (emitAsync_promises s) \<le> length (emitAsync_promises (step P op s))
     \<and> (p < length (emitAsync_promises s) \<longrightarrow>
          (\<not> invokes_ack p op \<or> emitAsync_promises s ! p \<noteq> Pending) \<longrightarrow>
          emitAsync_promises (step P op s) ! p = emitAsync_promises s ! p)"
proof (cases op)
  case (Emit e d cb)
  then show ?thesis by (simp add: ap_emit)
next
  case (EmitAsync e d)
  then show ?thesis
    using ap_emitAsync [of P e d s]
    by (cases "emitAsync P e d s") auto
next
  case (EmitQueued e d)
  then show ?thesis by (simp add: ap_emitQueued)
next
  case (On e n)
  then show ?thesis by (simp add: on_def returned_def Let_def split: option.splits)
next
  case (Once e n)
  then show ?thesis by (simp add: once_def returned_def Let_def split: option.splits)
next
  case (WaitFor e ms)
  then show ?thesis by (simp add: waitFor_def on_def Let_def split: option.splits)
next
  case Disconnect
  then show ?thesis using assms by (simp add: ap_disconnect)
next
  case Reconnect
  then show ?thesis using assms by (simp add: ap_reconnect)
next
  case (EnvConnect k)
  then show ?thesis
    using assms by (simp add: transport_connect_def ap_sock_fire acks_unbound_set_connected)
next
  case (EnvDisconnect k r)
  then show ?thesis
    using assms by (simp add: transport_disconnect_def ap_sock_fire acks_unbound_set_connected)
next
  case (EnvConnectError k r)
  then show ?thesis using assms by (simp add: transport_connect_error_def ap_sock_fire)
next
  case (EnvEvent k e args)
  then show ?thesis using assms by (simp add: ap_sock_fire)
next
  case (EnvAck f v)
  show ?thesis
  proof (cases "is_ack f")
    case False
    then show ?thesis
      using EnvAck by (simp add: transport_ack_def ap_invoke del: invoke.simps)
  next
    case True
    then obtain q where "f = AckResolve q" by (cases f) auto
    then show ?thesis
      using EnvAck
      by (cases "q = p")
         (auto simp: transport_ack_def settle_async_def settle_other settle_settled)
  qed
next
  case (EnvTimer t)
  then show ?thesis
    by (simp add: fire_timer_def run_timer_action_def Let_def split: timer_action.splits)
qed (simp_all add: reconnectWithBackoff_def use_def enableDebug_def disableDebug_def
      has_url_def split: option.splits)

lemma ap_run:
  assumes "acks_unbound s" "p < length (emitAsync_promises s)"
      and "\<not> list_ex (invokes_ack p) ops \<or> emitAsync_promises s ! p \<noteq> Pending"
  shows "p < length (emitAsync_promises (run P ops s))
     \<and> emitAsync_promises (run P ops s) ! p = emitAsync_promises s ! p"
  using assms
proof (induction ops arbitrary: s)
  case Nil
  then show ?case by (simp add: run_def)
next
  case (Cons op ops)
  have st: "length (emitAsync_promises s) \<le> length (emitAsync_promises (step P op s))"
      "emitAsync_promises (step P op s) ! p = emitAsync_promises s ! p"
    using ap_step [OF Cons.prems(1), of P op p] Cons.prems(2,3) by auto
  have "p < length (emitAsync_promises (run P ops (step P op s)))
     \<and> emitAsync_promises (run P ops (step P op s)) ! p = emitAsync_promises (step P op s) ! p"
    using Cons.prems st by (intro Cons.IH) (auto simp: acks_unbound_step)
  then show ?case using st by (simp add: run_def)
qed

lemma run_append: "run P (ops @ ops') s = run P ops' (run P ops s)"
  by (simp add: run_def)

lemma run_Cons: "run P (op # ops) s = run P ops (step P op s)"
  by (simp add: run_def)

section \<open>flushQueue and emitQueued\<close>

lemma refused_Nil: "\<not> reserved_queued s \<Longrightarrow> refused (queue s) = []"
  by (auto simp: reserved_queued_def refused_def list_ex_iff)

lemma sendable_split:
  "\<not> list_ex (\<lambda>en. reserved (fst en)) q1 \<Longrightarrow> reserved e
   \<Longrightarrow> sendable (q1 @ (e, d) # q2) = q1 \<and> refused (q1 @ (e, d) # q2) = (e, d) # q2"
  by (simp add: sendable_def refused_def list_ex_iff takeWhile_append2 dropWhile_append2)

lemma flushQueue_returns:
  assumes "\<not> reserved_queued s"
  shows "flushQueue s =
           Done (s\<lparr>queue := [],
                   trace := trace s @ (case socket s of None \<Rightarrow> [] | Some k \<Rightarrow> flushed k (queue s)),
                   console := console s @ flush_logs (debug s) (queue s)\<rparr>)"
  by (simp add: flushQueue_closed flush_result_def refused_Nil [OF assms] split: option.splits)

lemma flushQueue_no_socket:
  assumes "socket s = None"
  shows "flushQueue s =
           Done (s\<lparr>queue := [], console := console s @ flush_logs (debug s) (queue s)\<rparr>)"
  using assms by (simp add: flushQueue_closed flush_result_def)

lemma flushQueue_throws:
  assumes "socket s = Some k" "queue s = q1 @ (e, d) # q2"
      and "\<not> list_ex (\<lambda>en. reserved (fst en)) q1" "reserved e"
  shows "flushQueue s =
           Threw (ReservedEvent e)
             (s\<lparr>queue := q2, trace := trace s @ flushed k q1,
                 console := console s @ flush_logs (debug s) (q1 @ [(e, d)])\<rparr>)"
  using assms(1) sendable_split [OF assms(3,4), of d q2]
  by (simp add: flushQueue_closed flush_result_def assms(2))

lemma connect_hook_fires:
  assumes "k < length (sockets s)" "listeners_of ''connect'' (sockets s ! k) = [(ConnectHook, False)]"
  shows "transport_connect P k s = invoke P ConnectHook [] (set_connected k True s)"
  using assms by (simp add: transport_connect_def sock_fire_def set_connected_def listeners_of_def)

lemma queue_rebindListeners [simp]: "queue (rebindListeners s) = queue s"
  by (simp add: rebindListeners_closed attach_def split: option.splits)

lemma reserved_queued_set_connected [simp]:
  "reserved_queued (set_connected k b s) = reserved_queued s"
  by (simp add: reserved_queued_def set_connected_def)

text \<open>
  C4, amended: \<open>flushQueue\<close> does not look at the connection. It removes the entries
  from the queue one by one and hands each, in order, to the \<open>emit\<close> of the socket the
  service holds at that moment, whether that socket is connected or not, and to nothing
  when the service holds none. When it holds none, or when no queued entry has a
  reserved event name, it returns with the queue empty. When it holds a socket, at the
  first entry with a reserved name the socket's \<open>emit\<close> throws and so does
  \<open>flushQueue\<close>: the entries before that one have been sent, that entry has left the
  queue without being sent, and the entries after it are still queued. The sockets are
  as they were in every case.
\<close>

theorem C4_flushQueue_ignores_the_connection:
  "(\<not> reserved_queued s \<longrightarrow>
      (\<exists>s'. flushQueue s = Done s' \<and> queue s' = []
         \<and> trace s' = trace s @ (case socket s of
                                    None \<Rightarrow> []
                                  | Some k \<Rightarrow> map (\<lambda>(e, d). TransportEmit k e d None) (queue s))
         \<and> sockets s' = sockets s))
   \<and> (socket s = None \<longrightarrow>
        (\<exists>s'. flushQueue s = Done s' \<and> queue s' = [] \<and> trace s' = trace s
           \<and> sockets s' = sockets s))
   \<and> (socket s = Some k \<and> queue s = q1 @ (e, d) # q2
        \<and> \<not> list_ex (\<lambda>en. reserved (fst en)) q1 \<and> reserved e \<longrightarrow>
        (\<exists>s'. flushQueue s = Threw (ReservedEvent e) s' \<and> queue s' = q2
           \<and> trace s' = trace s @ map (\<lambda>(e, d). TransportEmit k e d None) q1
           \<and> sockets s' = sockets s))"
proof (intro conjI impI)
  assume "\<not> reserved_queued s"
  then show "\<exists>s'. flushQueue s = Done s' \<and> queue s' = []
         \<and> trace s' = trace s @ (case socket s of
                                    None \<Rightarrow> []
                                  | Some k \<Rightarrow> map (\<lambda>(e, d). TransportEmit k e d None) (queue s))
         \<and> sockets s' = sockets s"
    by (simp add: flushQueue_returns flushed_def split: option.splits)
next
  assume "socket s = None"
  then show "\<exists>s'. flushQueue s = Done s' \<and> queue s' = [] \<and> trace s' = trace s
           \<and> sockets s' = sockets s"
    by (simp add: flushQueue_no_socket)
next
  assume a: "socket s = Some k \<and> queue s = q1 @ (e, d) # q2
        \<and> \<not> list_ex (\<lambda>en. reserved (fst en)) q1 \<and> reserved e"
  have "flushQueue s =
           Threw (ReservedEvent e)
             (s\<lparr>queue := q2, trace := trace s @ flushed k q1,
                 console := console s @ flush_logs (debug s) (q1 @ [(e, d)])\<rparr>)"
    using a by (intro flushQueue_throws) simp_all
  then show "\<exists>s'. flushQueue s = Threw (ReservedEvent e) s' \<and> queue s' = q2
           \<and> trace s' = trace s @ map (\<lambda>(e, d). TransportEmit k e d None) q1
           \<and> sockets s' = sockets s"
    by (simp add: flushed_def)
qed

lemma reserved_in_queue_eq:
  "reserved_in_queue =
     (init reserved_params new_service)
       \<lparr>queue := [(''sendMessage'', [text_payload ''a'']), (''disconnect'', [text_payload ''b'']),
                  (''sendMessage'', [text_payload ''c''])]\<rparr>"
  unfolding reserved_in_queue_def by (simp add: eval_defs)

lemma init_reserved_params: "init reserved_params new_service = init test_params new_service"
  by (simp add: eval_defs)

text \<open>The witness of C4: two entries queued after \<open>init\<close> are both handed to the
  socket, which is not connected; of three entries the second of which is named
  \<open>disconnect\<close>, the first is sent, the second is lost and the third stays queued.\<close>

theorem C4_flushQueue_ignores_the_connection_witness:
  "\<not> reserved_queued queued_twice
   \<and> map connected (sockets queued_twice) = [False]
   \<and> (\<exists>s'. flushQueue queued_twice = Done s' \<and> queue s' = []
         \<and> trace s' = [TransportEmit 0 ''sendMessage'' [text_payload ''a''] None,
                        TransportEmit 0 ''sendMessage'' [text_payload ''b''] None])
   \<and> socket new_service = None
   \<and> socket reserved_in_queue = Some 0
   \<and> queue reserved_in_queue =
        [(''sendMessage'', [text_payload ''a''])] @ (''disconnect'', [text_payload ''b''])
          # [(''sendMessage'', [text_payload ''c''])]
   \<and> reserved ''disconnect''
   \<and> (\<exists>s'. flushQueue reserved_in_queue = Threw (ReservedEvent ''disconnect'') s'
         \<and> queue s' = [(''sendMessage'', [text_payload ''c''])]
         \<and> trace s' = [TransportEmit 0 ''sendMessage'' [text_payload ''a''] None])"
proof -
  have a: "\<not> reserved_queued queued_twice" "socket queued_twice = Some 0"
    "queue queued_twice = [(''sendMessage'', [text_payload ''a'']), (''sendMessage'', [text_payload ''b''])]"
    "trace queued_twice = []" "map connected (sockets queued_twice) = [False]"
    unfolding queued_twice_eq init_new_service
    by (simp_all add: reserved_queued_def reserved_def reserved_events_def)
  have b: "socket reserved_in_queue = Some 0" "trace reserved_in_queue = []"
    "queue reserved_in_queue =
        [(''sendMessage'', [text_payload ''a''])] @ (''disconnect'', [text_payload ''b''])
          # [(''sendMessage'', [text_payload ''c''])]"
    unfolding reserved_in_queue_eq init_reserved_params init_new_service by simp_all
  have c: "\<not> list_ex (\<lambda>en. reserved (fst en)) [(''sendMessage'', [text_payload ''a''])]"
    "reserved ''disconnect''"
    by (simp_all add: reserved_def reserved_events_def)
  show ?thesis
    using C4_flushQueue_ignores_the_connection [of queued_twice 0 "[]" "''sendMessage''" "[]" "[]"]
      C4_flushQueue_ignores_the_connection [of reserved_in_queue 0
        "[(''sendMessage'', [text_payload ''a''])]" "''disconnect''" "[text_payload ''b'']"
        "[(''sendMessage'', [text_payload ''c''])]"]
      a b c
    by (auto simp: new_service_def)
qed

lemma dropped_before_eq:
  "dropped_before =
     \<lparr>socket = None, resolved_config = Some \<lparr>url = ''http://localhost:3000''\<rparr>,
      retryCount = 1, debug = False,
      queue = [(''sendMessage'', [text_payload ''a'']), (''sendMessage'', [text_payload ''b''])],
      listeners = [], middlewares = [],
      sockets =
        [\<lparr>connected = False,
           bound = [(''connect'', ConnectHook, False), (''disconnect'', OptOnDisconnect, False),
                    (''connect_error'', OptOnConnectError, False)]\<rparr>,
         \<lparr>connected = False,
           bound = [(''connect'', ConnectHook, False), (''disconnect'', OptOnDisconnect, False),
                    (''connect_error'', OptOnConnectError, False)]\<rparr>],
      timers = [\<lparr>action = BackoffInit, delay = 1000, status = Fired\<rparr>],
      emitAsync_promises = [], waitFor_promises = [], next_closure = 0,
      trace = [TransportDisconnect 1],
      console = [ConsoleLog ''Reconnecting attempt'' []]\<rparr>"
  unfolding dropped_before_def by (simp add: eval_defs)

text \<open>
  C3, as the claim states it, fails. The service holds no socket when the two emits are
  queued (a second socket was made by the backoff timer and closed by \<open>disconnect()\<close>);
  the first socket, never closed, then connects: its \<open>connect\<close> listener runs
  \<open>flushQueue\<close>, which empties the queue into nothing, and the caller's connect hook is
  called. Neither entry reaches a transport.
\<close>

theorem C3_queued_entries_dropped_without_socket:
  "queue dropped_before =
     [(''sendMessage'', [text_payload ''a'']), (''sendMessage'', [text_payload ''b''])]
   \<and> socket dropped_before = None
   \<and> trace dropped_before = [TransportDisconnect 1]
   \<and> map connected (sockets dropped_before) = [False, False]
   \<and> queue dropped_after = []
   \<and> trace dropped_after = [TransportDisconnect 1, OnConnect]
   \<and> map connected (sockets dropped_after) = [True, False]"
  unfolding dropped_after_def dropped_before_eq by (simp add: eval_defs)

text \<open>
  C3, amended: \<open>emitQueued(E, P)\<close> called while the transport is not connected appends
  \<open>(E, [P])\<close> to the queue and touches neither the trace nor the sockets. When a socket
  whose \<open>connect\<close> listener is the one \<open>init\<close> attached then connects, the queued
  entries go, in insertion order and each once, to the \<open>emit\<close> of the socket the service
  holds at that moment:
  \<^item> if it holds a socket and no queued entry has a reserved event name, every entry is
    sent, the queue is empty afterwards, and the caller's connect hook is called after
    the last of them;
  \<^item> if it holds no socket, the queue is emptied, nothing is sent, and the hook is
    called;
  \<^item> if it holds a socket, at the first entry with a reserved name the listener throws:
    the entries before it have been sent, that entry is lost, the entries after it
    stay queued, and the hook is not called.
\<close>

theorem C3_queued_then_flushed_in_order:
  "(\<not> isConnected s \<longrightarrow>
      (\<exists>s'. emitQueued P e d s = Done s' \<and> queue s' = queue s @ [(e, [d])]
            \<and> trace s' = trace s \<and> sockets s' = sockets s))
   \<and> (c < length (sockets s)
        \<and> listeners_of ''connect'' (sockets s ! c) = [(ConnectHook, False)] \<longrightarrow>
      (socket s = Some k \<and> \<not> reserved_queued s \<longrightarrow>
         (\<exists>s'. transport_connect P c s = Done s' \<and> queue s' = []
            \<and> trace s' =
                trace s @ map (\<lambda>(e, d). TransportEmit k e d None) (queue s) @ [OnConnect]))
      \<and> (socket s = None \<longrightarrow>
           (\<exists>s'. transport_connect P c s = Done s' \<and> queue s' = []
              \<and> trace s' = trace s @ [OnConnect]))
      \<and> (socket s = Some k \<and> queue s = q1 @ (e1, d1) # q2
           \<and> \<not> list_ex (\<lambda>en. reserved (fst en)) q1 \<and> reserved e1 \<longrightarrow>
           (\<exists>s'. transport_connect P c s = Threw (ReservedEvent e1) s' \<and> queue s' = q2
              \<and> trace s' = trace s @ map (\<lambda>(e, d). TransportEmit k e d None) q1)))"
proof (intro conjI impI)
  assume "\<not> isConnected s"
  then show "\<exists>s'. emitQueued P e d s = Done s' \<and> queue s' = queue s @ [(e, [d])]
            \<and> trace s' = trace s \<and> sockets s' = sockets s"
    by (simp add: emitQueued_def prim_defs)
next
  assume h: "c < length (sockets s)
        \<and> listeners_of ''connect'' (sockets s ! c) = [(ConnectHook, False)]"
     and a: "socket s = Some k \<and> \<not> reserved_queued s"
  let ?c = "set_connected c True s"
  have f: "transport_connect P c s = invoke P ConnectHook [] ?c"
    using h by (intro connect_hook_fires) simp_all
  have "\<not> reserved_queued ?c" using a by simp
  then show "\<exists>s'. transport_connect P c s = Done s' \<and> queue s' = []
            \<and> trace s' =
                trace s @ map (\<lambda>(e, d). TransportEmit k e d None) (queue s) @ [OnConnect]"
    unfolding f using a
    by (simp add: flushQueue_returns flushed_def set_connected_def Let_def)
next
  assume h: "c < length (sockets s)
        \<and> listeners_of ''connect'' (sockets s ! c) = [(ConnectHook, False)]"
     and a: "socket s = None"
  let ?c = "set_connected c True s"
  have f: "transport_connect P c s = invoke P ConnectHook [] ?c"
    using h by (intro connect_hook_fires) simp_all
  have "socket ?c = None" using a by (simp add: set_connected_def)
  then show "\<exists>s'. transport_connect P c s = Done s' \<and> queue s' = []
              \<and> trace s' = trace s @ [OnConnect]"
    unfolding f
    by (simp add: flushQueue_no_socket set_connected_def Let_def)
next
  assume h: "c < length (sockets s)
        \<and> listeners_of ''connect'' (sockets s ! c) = [(ConnectHook, False)]"
     and a: "socket s = Some k \<and> queue s = q1 @ (e1, d1) # q2
           \<and> \<not> list_ex (\<lambda>en. reserved (fst en)) q1 \<and> reserved e1"
  let ?c = "set_connected c True s"
  have f: "transport_connect P c s = invoke P ConnectHook [] ?c"
    using h by (intro connect_hook_fires) simp_all
  have "flushQueue ?c =
           Threw (ReservedEvent e1)
             (?c\<lparr>queue := q2, trace := trace ?c @ flushed k q1,
                 console := console ?c @ flush_logs (debug ?c) (q1 @ [(e1, d1)])\<rparr>)"
    using a by (intro flushQueue_throws) (simp_all add: set_connected_def)
  then show "\<exists>s'. transport_connect P c s = Threw (ReservedEvent e1) s' \<and> queue s' = q2
              \<and> trace s' = trace s @ map (\<lambda>(e, d). TransportEmit k e d None) q1"
    unfolding f by (simp add: flushed_def set_connected_def)
qed

text \<open>The witness of C3: after \<open>init\<close> the service is not connected, two emits are
  queued, and the connection of socket 0 sends both in order before \<open>onConnect\<close>; with
  no socket held the connection sends nothing; with a reserved name second in the
  queue the connection sends the first entry and throws.\<close>

theorem C3_queued_then_flushed_in_order_witness:
  "\<not> isConnected (init test_params new_service)
   \<and> emitQueued test_params ''sendMessage'' (text_payload ''a'') (init test_params new_service)
       = Done ((init test_params new_service)\<lparr>queue := [(''sendMessage'', [text_payload ''a''])]\<rparr>)
   \<and> socket queued_twice = Some 0
   \<and> listeners_of ''connect'' (sockets queued_twice ! 0) = [(ConnectHook, False)]
   \<and> \<not> reserved_queued queued_twice
   \<and> (\<exists>s'. transport_connect test_params 0 queued_twice = Done s' \<and> queue s' = []
         \<and> trace s' =
             [TransportEmit 0 ''sendMessage'' [text_payload ''a''] None,
              TransportEmit 0 ''sendMessage'' [text_payload ''b''] None, OnConnect])
   \<and> socket dropped_before = None
   \<and> listeners_of ''connect'' (sockets dropped_before ! 0) = [(ConnectHook, False)]
   \<and> (\<exists>s'. transport_connect test_params 0 dropped_before = Done s' \<and> queue s' = []
         \<and> trace s' = [TransportDisconnect 1, OnConnect])
   \<and> socket reserved_in_queue = Some 0
   \<and> listeners_of ''connect'' (sockets reserved_in_queue ! 0) = [(ConnectHook, False)]
   \<and> (\<exists>s'. transport_connect reserved_params 0 reserved_in_queue
              = Threw (ReservedEvent ''disconnect'') s'
         \<and> queue s' = [(''sendMessage'', [text_payload ''c''])]
         \<and> trace s' = [TransportEmit 0 ''sendMessage'' [text_payload ''a''] None])"
proof -
  have a: "\<not> isConnected (init test_params new_service)"
    by (simp add: init_new_service isConnected_def)
  have e: "emitQueued test_params ''sendMessage'' (text_payload ''a'') (init test_params new_service)
       = Done ((init test_params new_service)\<lparr>queue := [(''sendMessage'', [text_payload ''a''])]\<rparr>)"
    by (simp add: init_new_service emitQueued_def isConnected_def debug_log_def)
  have b: "socket queued_twice = Some 0" "0 < length (sockets queued_twice)"
    "listeners_of ''connect'' (sockets queued_twice ! 0) = [(ConnectHook, False)]"
    "\<not> reserved_queued queued_twice"
    "queue queued_twice = [(''sendMessage'', [text_payload ''a'']), (''sendMessage'', [text_payload ''b''])]"
    "trace queued_twice = []"
    unfolding queued_twice_eq init_new_service
    by (simp_all add: listeners_of_def reserved_queued_def reserved_def reserved_events_def)
  have c: "socket dropped_before = None" "0 < length (sockets dropped_before)"
    "listeners_of ''connect'' (sockets dropped_before ! 0) = [(ConnectHook, False)]"
    "trace dropped_before = [TransportDisconnect 1]"
    unfolding dropped_before_eq by (simp_all add: listeners_of_def)
  have d: "socket reserved_in_queue = Some 0" "0 < length (sockets reserved_in_queue)"
    "listeners_of ''connect'' (sockets reserved_in_queue ! 0) = [(ConnectHook, False)]"
    "trace reserved_in_queue = []"
    "queue reserved_in_queue =
        [(''sendMessage'', [text_payload ''a''])] @ (''disconnect'', [text_payload ''b''])
          # [(''sendMessage'', [text_payload ''c''])]"
    unfolding reserved_in_queue_eq init_reserved_params init_new_service
    by (simp_all add: listeners_of_def)
  have r: "\<not> list_ex (\<lambda>en. reserved (fst en)) [(''sendMessage'', [text_payload ''a''])]"
    "reserved ''disconnect''"
    by (simp_all add: reserved_def reserved_events_def)
  show ?thesis
    using C3_queued_then_flushed_in_order [of "init test_params new_service" test_params
        "''sendMessage''" "text_payload ''a''" 0 0 "[]" "''sendMessage''" "[]" "[]"]
      C3_queued_then_flushed_in_order [of queued_twice test_params "''sendMessage''"
        "text_payload ''a''" 0 0 "[]" "''sendMessage''" "[]" "[]"]
      C3_queued_then_flushed_in_order [of dropped_before test_params "''sendMessage''"
        "text_payload ''a''" 0 0 "[]" "''sendMessage''" "[]" "[]"]
      C3_queued_then_flushed_in_order [of reserved_in_queue reserved_params "''sendMessage''"
        "text_payload ''a''" 0 0 "[(''sendMessage'', [text_payload ''a''])]" "''disconnect''"
        "[text_payload ''b'']" "[(''sendMessage'', [text_payload ''c''])]"]
      a e b c d r
    by auto
qed

section \<open>emit\<close>

text \<open>
  C2, as the claim states it, fails when the service holds no socket (before \<open>init\<close>,
  after \<open>disconnect\<close>): the payload validates, \<open>emit\<close> returns, and nothing reaches a
  transport.
\<close>

theorem C2_emit_without_socket:
  "text_schema (text_payload ''Hello'') = Success (text_payload ''Hello'')
   \<and> emit test_params ''sendMessage'' (text_payload ''Hello'') None new_service = Done new_service
   \<and> trace new_service = []"
  by (simp add: eval_defs)

text \<open>
  C2, amended, for a declared event. When the payload fails validation, \<open>emit\<close> returns
  normally, nothing reaches the transport and one error is logged. When the payload
  validates and the service holds no socket, \<open>emit\<close> returns and nothing is sent. When
  the payload validates and the service holds a socket, the parsed value (with the
  callback, if one was given) is handed to that socket's \<open>emit\<close>: for an event name the
  socket does not reserve it is sent and \<open>emit\<close> returns; for a reserved name the
  socket's \<open>emit\<close> throws, \<open>emit\<close> throws with it, and nothing is sent. No error is
  logged for a payload that validates.
\<close>

theorem C2_emit_forwards_iff_valid:
  assumes "emitEvents P e = Some ev"
  shows "(case request ev d of
            Failure z \<Rightarrow>
              (\<exists>s'. emit P e d cb s = Done s' \<and> trace s' = trace s
                 \<and> console s' = console s @ [ConsoleError ''[socket:emit] Validation failed for'' e])
          | Success v \<Rightarrow>
              (case socket s of
                 None \<Rightarrow>
                   (\<exists>s'. emit P e d cb s = Done s' \<and> trace s' = trace s
                      \<and> console s' = console s @ (if debug s then [ConsoleLog ''emit'' e] else []))
               | Some k \<Rightarrow>
                   if reserved e
                   then (\<exists>s'. emit P e d cb s = Threw (ReservedEvent e) s' \<and> trace s' = trace s
                          \<and> console s' = console s @ (if debug s then [ConsoleLog ''emit'' e] else []))
                   else (\<exists>s'. emit P e d cb s = Done s'
                          \<and> trace s' = trace s @
                              [TransportEmit k e [v] (map_option (\<lambda>c. Bare (Caller c)) cb)]
                          \<and> console s' = console s @ (if debug s then [ConsoleLog ''emit'' e] else []))))"
  using assms
  by (simp add: emit_def prim_defs Let_def split: parsed.splits option.splits)

text \<open>The witness of C2: the test suite's two emits, a valid and an invalid one, and
  an emit of the declared event \<open>disconnect\<close>.\<close>

theorem C2_emit_forwards_iff_valid_witness:
  "emitEvents test_params ''sendMessage'' = Some \<lparr>request = text_schema, callback = success_schema\<rparr>
   \<and> emitEvents reserved_params ''disconnect'' = Some \<lparr>request = text_schema, callback = success_schema\<rparr>
   \<and> (\<exists>s'. emit test_params ''sendMessage'' (text_payload ''Hello'') None (init test_params new_service) = Done s'
         \<and> trace s' = [TransportEmit 0 ''sendMessage'' [text_payload ''Hello''] None]
         \<and> console s' = [])
   \<and> (\<exists>s'. emit test_params ''sendMessage'' (VObj [(''invalid'', VBool True)]) None (init test_params new_service) = Done s'
         \<and> trace s' = []
         \<and> console s' = [ConsoleError ''[socket:emit] Validation failed for'' ''sendMessage''])
   \<and> (\<exists>s'. emit reserved_params ''disconnect'' (text_payload ''bye'') None (init test_params new_service)
              = Threw (ReservedEvent ''disconnect'') s'
         \<and> trace s' = [] \<and> console s' = [])"
proof -
  have h: "emitEvents test_params ''sendMessage'' = Some \<lparr>request = text_schema, callback = success_schema\<rparr>"
    by (simp add: test_params_def)
  have h': "emitEvents reserved_params ''disconnect'' = Some \<lparr>request = text_schema, callback = success_schema\<rparr>"
    by (simp add: reserved_params_def test_params_def)
  have v: "text_schema (text_payload ''Hello'') = Success (text_payload ''Hello'')"
    "text_schema (text_payload ''bye'') = Success (text_payload ''bye'')"
    by (simp_all add: eval_defs)
  have w: "text_schema (VObj [(''invalid'', VBool True)]) = Failure ''text: expected string''"
    by (simp add: eval_defs)
  have r: "reserved ''disconnect''" "\<not> reserved ''sendMessage''"
    by (simp_all add: reserved_def reserved_events_def)
  show ?thesis
    using C2_emit_forwards_iff_valid [OF h, of "text_payload ''Hello''" None "init test_params new_service"]
      C2_emit_forwards_iff_valid [OF h, of "VObj [(''invalid'', VBool True)]" None "init test_params new_service"]
      C2_emit_forwards_iff_valid [OF h', of "text_payload ''bye''" None "init test_params new_service"]
    by (auto simp: h h' v w r init_new_service)
qed

section \<open>emitAsync\<close>

lemma async_connected_eq:
  "async_connected =
     \<lparr>socket = Some 0, resolved_config = Some \<lparr>url = ''http://localhost:3000''\<rparr>,
      retryCount = 0, debug = False, queue = [], listeners = [], middlewares = [],
      sockets =
        [\<lparr>connected = True,
           bound = [(''connect'', ConnectHook, False), (''disconnect'', OptOnDisconnect, False),
                    (''connect_error'', OptOnConnectError, False)]\<rparr>],
      timers = [], emitAsync_promises = [], waitFor_promises = [], next_closure = 0,
      trace = [OnConnect], console = []\<rparr>"
  unfolding async_connected_def by (simp add: eval_defs)

lemma reserved_connected_eq: "reserved_connected = async_connected"
  unfolding reserved_connected_def async_connected_def by (simp add: eval_defs)

text \<open>
  C9: in a state the service can reach, for a declared event and a payload that
  validates, \<open>emitAsync\<close> returns a new promise and queues nothing.
  \<^item> Called while the transport is not connected (or absent): the trace and the sockets
    are untouched, and the promise is rejected with the not-connected error and stays
    so whatever happens later, a reconnection included.
  \<^item> Called while connected, for an event name the socket does not reserve: the parsed
    payload is handed to the socket's \<open>emit\<close> with the promise's ack function; the
    promise is pending as long as the transport does not call that function, and from
    the first call on it is resolved with the payload of that call.
  \<^item> Called while connected, for a reserved event name: the socket's \<open>emit\<close> throws
    inside the promise's executor, so nothing is sent, the transport never holds the
    ack function, and the promise is rejected with the error thrown and stays so.
\<close>

theorem C9_emitAsync_rejects_or_resolves_on_ack:
  assumes "s = run P ops0 new_service"
      and "emitEvents P e = Some ev" and "request ev d = Success v"
  shows "\<exists>s'. emitAsync P e d s = Inr (length (emitAsync_promises s), s')
     \<and> queue s' = queue s
     \<and> (\<not> isConnected s \<longrightarrow>
          trace s' = trace s \<and> sockets s' = sockets s
          \<and> (\<forall>ops. emitAsync_promises (run P ops s') ! length (emitAsync_promises s)
                     = Rejected (NotConnected e)))
     \<and> (isConnected s \<and> \<not> reserved e \<longrightarrow>
          (\<exists>k. socket s = Some k
             \<and> trace s' = trace s @
                 [TransportEmit k e [v] (Some (AckResolve (length (emitAsync_promises s))))])
          \<and> (\<forall>ops. \<not> list_ex (invokes_ack (length (emitAsync_promises s))) ops \<longrightarrow>
                emitAsync_promises (run P ops s') ! length (emitAsync_promises s) = Pending)
          \<and> (\<forall>ops r ops'. \<not> list_ex (invokes_ack (length (emitAsync_promises s))) ops \<longrightarrow>
                emitAsync_promises
                  (run P (ops @ EnvAck (AckResolve (length (emitAsync_promises s))) r # ops') s')
                  ! length (emitAsync_promises s) = Resolved r))
     \<and> (isConnected s \<and> reserved e \<longrightarrow>
          trace s' = trace s \<and> sockets s' = sockets s
          \<and> (\<forall>ops. emitAsync_promises (run P ops s') ! length (emitAsync_promises s)
                     = Rejected (ReservedEvent e)))"
proof -
  let ?p = "length (emitAsync_promises s)"
  let ?s0 = "s\<lparr>emitAsync_promises := emitAsync_promises s @ [Pending]\<rparr>"
  have inv: "acks_unbound s"
    unfolding assms(1) by (rule acks_unbound_run) (rule acks_unbound_new)
  have c0: "isConnected ?s0 = isConnected s" by (simp add: isConnected_def split: option.splits)
  show ?thesis
  proof (cases "isConnected s")
    case False
    let ?s' = "settle_async ?p (Rejected (NotConnected e)) ?s0"
    have r: "emitAsync P e d s = Inr (?p, ?s')"
      using assms(2,3) False c0 by (simp add: emitAsync_def Let_def)
    have inv': "acks_unbound ?s'" using inv by (simp add: acks_unbound_def)
    have p: "?p < length (emitAsync_promises ?s')"
        "emitAsync_promises ?s' ! ?p = Rejected (NotConnected e)"
      by (simp_all add: settle_async_def settle_def)
    have "emitAsync_promises (run P ops ?s') ! ?p = Rejected (NotConnected e)" for ops
      using ap_run [OF inv' p(1), of ops P] p(2) by simp
    then show ?thesis
      using r False by (simp add: settle_async_def)
  next
    case True
    then obtain k where k: "socket s = Some k" by (auto simp: isConnected_def split: option.splits)
    show ?thesis
    proof (cases "reserved e")
      case res: True
      let ?s1 = "debug_log ''emitAsync'' e ?s0"
      let ?s' = "settle_async ?p (Rejected (ReservedEvent e)) ?s1"
      have em: "socket_emit e [v] (Some (AckResolve ?p)) ?s1 = Threw (ReservedEvent e) ?s1"
        using k res by (simp add: prim_defs)
      have r: "emitAsync P e d s = Inr (?p, ?s')"
        using assms(2,3) True c0 by (simp add: emitAsync_def Let_def em)
      have inv': "acks_unbound ?s'" using inv by (simp add: acks_unbound_def)
      have p: "?p < length (emitAsync_promises ?s')"
          "emitAsync_promises ?s' ! ?p = Rejected (ReservedEvent e)"
        by (simp_all add: settle_async_def settle_def)
      have "emitAsync_promises (run P ops ?s') ! ?p = Rejected (ReservedEvent e)" for ops
        using ap_run [OF inv' p(1), of ops P] p(2) by simp
      then show ?thesis
        using r True res by (simp add: prim_defs)
    next
      case nres: False
      let ?ack = "AckResolve ?p"
      let ?s1 = "debug_log ''emitAsync'' e ?s0"
      let ?s' = "?s1\<lparr>trace := trace ?s1 @ [TransportEmit k e [v] (Some ?ack)]\<rparr>"
      have em: "socket_emit e [v] (Some ?ack) ?s1 = Done ?s'"
        using k nres by (simp add: prim_defs)
      have r: "emitAsync P e d s = Inr (?p, ?s')"
        using assms(2,3) True c0 by (simp add: emitAsync_def Let_def em)
      have inv': "acks_unbound ?s'" using inv by (simp add: acks_unbound_def)
      have tr: "trace ?s' = trace s @ [TransportEmit k e [v] (Some ?ack)]"
        by (simp add: prim_defs)
      have p: "?p < length (emitAsync_promises ?s')" "emitAsync_promises ?s' ! ?p = Pending"
        by simp_all
      have pend: "emitAsync_promises (run P ops ?s') ! ?p = Pending
          \<and> ?p < length (emitAsync_promises (run P ops ?s'))"
        if "\<not> list_ex (invokes_ack ?p) ops" for ops
        using ap_run [OF inv' p(1), of ops P] p(2) that by simp
      have res: "emitAsync_promises (run P (ops @ EnvAck ?ack r # ops') ?s') ! ?p = Resolved r"
        if n: "\<not> list_ex (invokes_ack ?p) ops" for ops r ops'
      proof -
        let ?s2 = "run P ops ?s'"
        let ?s3 = "step P (EnvAck ?ack r) ?s2"
        have "prefix (trace ?s') (trace ?s2)" by (rule trace_run) simp
        then have "TransportEmit k e [v] (Some ?ack) \<in> set (trace ?s2)"
          unfolding tr by (auto simp: prefix_def)
        then have "Some ?ack \<in> set (map ack_of (trace ?s2))" by force
        then have s3: "emitAsync_promises ?s3 = settle (emitAsync_promises ?s2) ?p (Resolved r)"
          by (simp add: transport_ack_def settle_async_def arg0_def)
        have a: "emitAsync_promises ?s3 ! ?p = Resolved r" "?p < length (emitAsync_promises ?s3)"
          using pend [OF n] unfolding s3 by (simp_all add: settle_pending)
        have inv3: "acks_unbound ?s3"
          by (intro acks_unbound_step acks_unbound_run inv')
        have "emitAsync_promises (run P ops' ?s3) ! ?p = emitAsync_promises ?s3 ! ?p"
          using ap_run [OF inv3 a(2), of ops' P] a(1) by simp
        then show ?thesis using a(1) by (simp add: run_append run_Cons)
      qed
      show ?thesis
        using r True nres k tr pend res by (simp add: prim_defs)
    qed
  qed
qed

text \<open>The witness of C9: the test suite's \<open>emitAsync("sendMessage", { text: "Hi" })\<close>
  before the socket connects, where the rejection survives a connection and a late ack,
  and after it has connected, where the promise is pending across a disconnect and
  resolves with the ack; and an \<open>emitAsync\<close> of the declared event \<open>disconnect\<close> on the
  connected service, rejected at once.\<close>

theorem C9_emitAsync_rejects_or_resolves_on_ack_witness:
  "emitEvents test_params ''sendMessage'' = Some \<lparr>request = text_schema, callback = success_schema\<rparr>
   \<and> emitEvents reserved_params ''disconnect'' = Some \<lparr>request = text_schema, callback = success_schema\<rparr>
   \<and> text_schema (text_payload ''Hi'') = Success (text_payload ''Hi'')
   \<and> \<not> isConnected async_disconnected
   \<and> isConnected async_connected \<and> \<not> reserved ''sendMessage''
   \<and> isConnected reserved_connected \<and> reserved ''disconnect''
   \<and> (\<exists>s'. emitAsync test_params ''sendMessage'' (text_payload ''Hi'') async_disconnected = Inr (0, s')
         \<and> queue s' = [] \<and> trace s' = []
         \<and> emitAsync_promises (run test_params [EnvConnect 0, EnvAck (AckResolve 0) (VBool True)] s')
             = [Rejected (NotConnected ''sendMessage'')])
   \<and> (\<exists>s'. emitAsync test_params ''sendMessage'' (text_payload ''Hi'') async_connected = Inr (0, s')
         \<and> trace s' = [OnConnect, TransportEmit 0 ''sendMessage'' [text_payload ''Hi''] (Some (AckResolve 0))]
         \<and> emitAsync_promises (run test_params [EnvDisconnect 0 (VStr ''transport close'')] s') = [Pending]
         \<and> emitAsync_promises
             (run test_params
                [EnvDisconnect 0 (VStr ''transport close''),
                 EnvAck (AckResolve 0) (VObj [(''success'', VBool True)])] s')
             = [Resolved (VObj [(''success'', VBool True)])])
   \<and> (\<exists>s'. emitAsync reserved_params ''disconnect'' (text_payload ''Hi'') reserved_connected = Inr (0, s')
         \<and> queue s' = [] \<and> trace s' = [OnConnect]
         \<and> emitAsync_promises (run reserved_params [EnvAck (AckResolve 0) (VBool True)] s')
             = [Rejected (ReservedEvent ''disconnect'')])"
proof -
  have h: "emitEvents test_params ''sendMessage'' = Some \<lparr>request = text_schema, callback = success_schema\<rparr>"
    by (simp add: test_params_def)
  have h': "emitEvents reserved_params ''disconnect'' = Some \<lparr>request = text_schema, callback = success_schema\<rparr>"
    by (simp add: reserved_params_def test_params_def)
  have v: "request \<lparr>request = text_schema, callback = success_schema\<rparr> (text_payload ''Hi'') = Success (text_payload ''Hi'')"
    by (simp add: eval_defs)
  show ?thesis
    using C9_emitAsync_rejects_or_resolves_on_ack [OF async_disconnected_def h v]
      C9_emitAsync_rejects_or_resolves_on_ack [OF async_connected_def h v]
      C9_emitAsync_rejects_or_resolves_on_ack [OF reserved_connected_def h' v]
    unfolding async_disconnected_def async_connected_def reserved_connected_def
    by (simp add: eval_defs)
qed

section \<open>Listeners across reconnects\<close>

subsection \<open>The registry only grows\<close>

lemma registered_listeners: "listeners s' = listeners s \<Longrightarrow> registered e s' = registered e s"
  by (simp add: registered_def)

lemma registered_on:
  assumes "on P e h s = Inr s1"
  shows "Wrapped (next_closure s) e h \<in> set (registered e s1)"
    and "g \<in> set (registered e' s) \<Longrightarrow> g \<in> set (registered e' s1)"
proof -
  from assms obtain oe where oe: "onEvents P e = Some oe"
    by (auto simp: on_def split: option.splits)
  have l: "listeners s1 = register_listener e (Wrapped (next_closure s) e h) (listeners s)"
    using assms oe by (auto simp: on_def Let_def prim_defs split: option.splits)
  show "Wrapped (next_closure s) e h \<in> set (registered e s1)"
    unfolding registered_handlers l by (rule register_adds)
  show "g \<in> set (registered e' s) \<Longrightarrow> g \<in> set (registered e' s1)"
    unfolding registered_handlers l by (rule register_keeps)
qed

lemma listeners_emitAsync:
  "emitAsync P e d s = Inr (p, s1) \<Longrightarrow> listeners s1 = listeners s"
  by (auto simp: emitAsync_def Let_def prim_defs
      split: option.splits parsed.splits if_splits)

lemma registered_step:
  assumes "g \<in> set (registered e s)"
  shows "g \<in> set (registered e (step P op s))"
proof (cases op)
  case (On e' n)
  then show ?thesis
    using assms registered_on(2) [of P e' "Caller n" s _ g e]
    by (auto simp: returned_def split: sum.splits)
next
  case (WaitFor e' ms)
  show ?thesis
  proof (cases "onEvents P e'")
    case None
    then show ?thesis
      using assms WaitFor by (simp add: waitFor_def Let_def registered_def prim_defs)
  next
    case (Some oe)
    let ?s0 = "s\<lparr>waitFor_promises := waitFor_promises s @ [Pending]\<rparr>"
    let ?h = "WaitHandler e' (length (timers ?s0)) (length (waitFor_promises s))"
    let ?s1 = "setTimeout (WaitTimeout e' ?h (length (waitFor_promises s)))
                         (case ms of None \<Rightarrow> 5000 | Some ms \<Rightarrow> ms) ?s0"
    have a: "g \<in> set (registered e ?s1)"
      using assms by (simp add: registered_def prim_defs)
    show ?thesis
    proof (cases "on P e' ?h ?s1")
      case (Inl err)
      then show ?thesis
        using a WaitFor Some by (simp add: waitFor_def Let_def registered_def prim_defs)
    next
      case (Inr s2)
      then show ?thesis
        using registered_on(2) [OF Inr a] WaitFor Some by (simp add: waitFor_def Let_def)
    qed
  qed
next
  case (EmitAsync e' d)
  then show ?thesis
    using assms listeners_emitAsync [of P e' d s]
    by (cases "emitAsync P e' d s") (auto simp: registered_def)
next
  case (Once e' n)
  then show ?thesis
    using assms
    by (simp add: registered_def once_def returned_def prim_defs split: option.splits)
qed (use assms in \<open>simp_all add: registered_def reconnectWithBackoff_def use_def
      enableDebug_def disableDebug_def transport_connect_def transport_disconnect_def
      transport_connect_error_def transport_ack_def prim_defs split: option.splits\<close>)

lemma registered_run:
  "g \<in> set (registered e s) \<Longrightarrow> g \<in> set (registered e (run P ops s))"
  unfolding run_def by (induction ops arbitrary: s) (simp_all add: registered_step)

subsection \<open>With no reserved name queued, listeners return\<close>

lemma queue_call_handler [simp]: "queue (call_handler P h v s) = queue s"
  by (cases h) (simp_all add: body_defs split: option.splits parsed.splits)

lemma queue_wrapped_body [simp]: "queue (wrapped_body P tag e h raw s) = queue s"
  by (simp add: wrapped_body_def runMiddlewares_closed Let_def prim_defs
      split: option.splits parsed.splits)

lemma invoke_returns:
  assumes "\<not> reserved_queued s"
  shows "\<exists>s'. invoke P f args s = Done s' \<and> \<not> reserved_queued s'"
proof (cases f)
  case ConnectHook
  show ?thesis
    unfolding ConnectHook
    by (simp add: flushQueue_returns [OF assms] Let_def reserved_queued_def)
qed (use assms in \<open>simp_all add: reserved_queued_def prim_defs\<close>)

lemma fire_one_returns:
  assumes "\<not> reserved_queued s"
  shows "\<exists>s'. fire_one P k e args l s = Done s' \<and> \<not> reserved_queued s'"
proof (cases l)
  case (Pair f once_flag)
  have "\<not> reserved_queued (if once_flag then sock_off k e f s else s)"
    using assms by (simp add: reserved_queued_def sock_off_def)
  then show ?thesis unfolding Pair fire_one.simps by (rule invoke_returns)
qed

lemma fire_all_returns:
  assumes "\<not> reserved_queued s"
  shows "\<exists>s'. fire_all P k e args ls s = Done s' \<and> \<not> reserved_queued s'"
  using assms
proof (induction ls arbitrary: s)
  case Nil
  then show ?case by simp
next
  case (Cons l ls)
  obtain s1 where s1: "fire_one P k e args l s = Done s1" "\<not> reserved_queued s1"
    using fire_one_returns [OF Cons.prems] by blast
  show ?case using Cons.IH [OF s1(2)] s1(1) by simp
qed

subsection \<open>An attached wrapper calls its handler\<close>

lemma trace_extends:
  "prefix (trace s) (trace s') \<Longrightarrow> \<exists>ex. trace s' = trace s @ ex"
  by (auto simp: prefix_def)

lemma trace_wrapped_caller:
  assumes "onEvents P e = Some oe" "response oe (arg0 args) = Success d"
  shows "\<exists>s'. invoke P (Wrapped i e (Caller n)) args s = Done s'
         \<and> trace s' = trace s @ map (middleware_call e (arg0 args)) (middlewares s) @ [HandlerCall n d]
         \<and> queue s' = queue s"
  using assms by (simp add: body_defs)

lemma fire_calls_handler:
  assumes "(Wrapped i e (Caller n), once_flag) \<in> set ls"
      and "\<not> reserved_queued s"
      and "onEvents P e = Some oe" and "response oe (arg0 args) = Success d"
  shows "\<exists>s' ex. fire_all P k e args ls s = Done s' \<and> trace s' = trace s @ ex
            \<and> HandlerCall n d \<in> set ex"
proof -
  let ?w = "Wrapped i e (Caller n)"
  from assms(1) obtain xs ys where ls: "ls = xs @ (?w, once_flag) # ys"
    by (auto dest: split_list)
  obtain sA where sA: "fire_all P k e args xs s = Done sA" "\<not> reserved_queued sA"
    using fire_all_returns [OF assms(2)] by blast
  have "prefix (trace s) (trace (state_of (fire_all P k e args xs s)))"
    by (rule trace_fire_all) simp
  then obtain ex1 where t1: "trace sA = trace s @ ex1"
    unfolding sA(1) by (auto dest: trace_extends)
  let ?sA' = "if once_flag then sock_off k e ?w sA else sA"
  have t1': "trace ?sA' = trace sA" "queue ?sA' = queue sA" by (simp_all add: sock_off_def)
  obtain sB where sB: "invoke P ?w args ?sA' = Done sB"
      "trace sB = trace ?sA' @ map (middleware_call e (arg0 args)) (middlewares ?sA') @ [HandlerCall n d]"
      "queue sB = queue ?sA'"
    using trace_wrapped_caller [OF assms(3,4), of i n ?sA'] by blast
  have rB: "\<not> reserved_queued sB"
    using sA(2) sB(3) t1'(2) by (simp add: reserved_queued_def)
  obtain sC where sC: "fire_all P k e args ys sB = Done sC"
    using fire_all_returns [OF rB] by blast
  have "prefix (trace sB) (trace (state_of (fire_all P k e args ys sB)))"
    by (rule trace_fire_all) simp
  then obtain ex3 where t3: "trace sC = trace sB @ ex3"
    unfolding sC by (auto dest: trace_extends)
  have f: "fire_all P k e args ls s = Done sC"
    unfolding ls fire_all_append sA(1) using sB(1) sC by simp
  have "trace sC
      = trace s @ (ex1 @ map (middleware_call e (arg0 args)) (middlewares ?sA') @ [HandlerCall n d] @ ex3)"
    using t1 t1'(1) sB(2) t3 by simp
  then show ?thesis using f by (intro exI conjI) (assumption, assumption, simp)
qed

subsection \<open>The connect listener\<close>

lemma connect_hook_rebinds:
  assumes "socket s = Some k" "k < length (sockets s)" "\<not> reserved_queued s"
  shows "\<exists>s'. invoke P ConnectHook args s = Done s' \<and> queue s' = []
         \<and> sockets s'
            = (sockets s)[k := (sockets s ! k)\<lparr>bound := bound (sockets s ! k) @ rebound (listeners s)\<rparr>]"
  using assms(1,2)
  by (simp add: flushQueue_returns [OF assms(3)] rebindListeners_closed attach_def Let_def)

lemma listening_eq:
  "listening =
     \<lparr>socket = Some 0, resolved_config = Some \<lparr>url = ''http://localhost:3000''\<rparr>,
      retryCount = 0, debug = False, queue = [],
      listeners = [(''message'', [Wrapped 0 ''message'' (Caller 1)])], middlewares = [],
      sockets =
        [\<lparr>connected = True,
           bound = [(''connect'', ConnectHook, False), (''disconnect'', OptOnDisconnect, False),
                    (''connect_error'', OptOnConnectError, False),
                    (''message'', Wrapped 0 ''message'' (Caller 1), False)]\<rparr>],
      timers = [], emitAsync_promises = [], waitFor_promises = [], next_closure = 1,
      trace = [OnConnect], console = []\<rparr>"
  unfolding listening_def by (simp add: eval_defs)

lemma reconnected_eq:
  "reconnected =
     \<lparr>socket = Some 1, resolved_config = Some \<lparr>url = ''http://localhost:3000''\<rparr>,
      retryCount = 0, debug = False, queue = [],
      listeners = [(''message'', [Wrapped 0 ''message'' (Caller 1)])], middlewares = [],
      sockets =
        [\<lparr>connected = False,
           bound = [(''connect'', ConnectHook, False), (''disconnect'', OptOnDisconnect, False),
                    (''connect_error'', OptOnConnectError, False),
                    (''message'', Wrapped 0 ''message'' (Caller 1), False)]\<rparr>,
         \<lparr>connected = False,
           bound = [(''connect'', ConnectHook, False), (''disconnect'', OptOnDisconnect, False),
                    (''connect_error'', OptOnConnectError, False)]\<rparr>],
      timers = [], emitAsync_promises = [], waitFor_promises = [], next_closure = 1,
      trace = [OnConnect, OnDisconnect (VStr ''transport close''), TransportDisconnect 0],
      console = []\<rparr>"
  unfolding reconnected_def listening_eq by (simp add: eval_defs)

lemma reserved_reconnected_eq:
  "reserved_reconnected =
     \<lparr>socket = Some 1, resolved_config = Some \<lparr>url = ''http://localhost:3000''\<rparr>,
      retryCount = 0, debug = False, queue = [(''disconnect'', [text_payload ''bye''])],
      listeners = [(''message'', [Wrapped 0 ''message'' (Caller 1)])], middlewares = [],
      sockets =
        [\<lparr>connected = False,
           bound = [(''connect'', ConnectHook, False), (''disconnect'', OptOnDisconnect, False),
                    (''connect_error'', OptOnConnectError, False),
                    (''message'', Wrapped 0 ''message'' (Caller 1), False)]\<rparr>,
         \<lparr>connected = False,
           bound = [(''connect'', ConnectHook, False), (''disconnect'', OptOnDisconnect, False),
                    (''connect_error'', OptOnConnectError, False)]\<rparr>],
      timers = [], emitAsync_promises = [], waitFor_promises = [], next_closure = 1,
      trace = [OnConnect, OnDisconnect (VStr ''transport close''), TransportDisconnect 0],
      console = []\<rparr>"
  unfolding reserved_reconnected_def by (simp add: eval_defs)

text \<open>
  C5, as the claim states it, fails. A handler is registered with \<open>on("message", h)\<close>
  on the connected service; the transport drops; an emit of the declared event
  \<open>disconnect\<close> is queued; the caller reconnects. When the new socket connects, its
  \<open>connect\<close> listener throws in \<open>flushQueue\<close>, before \<open>rebindListeners\<close>: the handler is
  still in the registry but is not attached to the new socket, the caller's connect
  hook is not called, and a \<open>message\<close> event on the new socket calls nothing.
\<close>

theorem C5_reserved_entry_blocks_rebind:
  "registered ''message'' reserved_reconnected = [Wrapped 0 ''message'' (Caller 1)]
   \<and> socket reserved_reconnected = Some 1
   \<and> queue reserved_reconnected = [(''disconnect'', [text_payload ''bye''])]
   \<and> listeners_of ''connect'' (sockets reserved_reconnected ! 1) = [(ConnectHook, False)]
   \<and> transport_connect reserved_params 1 reserved_reconnected
       = Threw (ReservedEvent ''disconnect'')
           (step reserved_params (EnvConnect 1) reserved_reconnected)
   \<and> map connected (sockets (step reserved_params (EnvConnect 1) reserved_reconnected))
       = [False, True]
   \<and> listeners_of ''message'' (sockets (step reserved_params (EnvConnect 1) reserved_reconnected) ! 1)
       = []
   \<and> trace reserved_reconnected
       = [OnConnect, OnDisconnect (VStr ''transport close''), TransportDisconnect 0]
   \<and> trace reserved_reconnected_event
       = [OnConnect, OnDisconnect (VStr ''transport close''), TransportDisconnect 0]"
  unfolding reserved_reconnected_event_def reserved_reconnected_eq by (simp add: eval_defs)

text \<open>
  C5, amended: a handler \<open>h\<close> registered with \<open>on(E, h)\<close> stays in the registry whatever
  happens afterwards (disconnects, reconnects, other calls; no second \<open>on\<close> is needed).
  When the socket the service then holds connects and runs the \<open>connect\<close> listener of
  \<open>init\<close>, and no entry with a reserved event name is in the queue at that moment, the
  listener returns, the wrapped form of \<open>h\<close> is attached to that socket from the
  registry, and an \<open>E\<close> event with a valid payload on that socket calls \<open>h\<close> with the
  parsed payload.
\<close>

theorem C5_listener_reattached_on_reconnect:
  assumes "on P e (Caller n) s0 = Inr s1"
      and "s2 = run P ops s1"
      and "socket s2 = Some k" and "k < length (sockets s2)"
      and "listeners_of ''connect'' (sockets s2 ! k) = [(ConnectHook, False)]"
      and "\<not> reserved_queued s2"
      and "onEvents P e = Some oe" and "response oe raw = Success d"
  shows "Wrapped (next_closure s0) e (Caller n) \<in> set (registered e s2)
     \<and> (\<exists>s3. transport_connect P k s2 = Done s3
          \<and> (Wrapped (next_closure s0) e (Caller n), False)
              \<in> set (listeners_of e (sockets s3 ! k))
          \<and> (\<exists>s4 ex. sock_fire P k e [raw] s3 = Done s4 \<and> trace s4 = trace s3 @ ex
                \<and> HandlerCall n d \<in> set ex))"
proof -
  let ?w = "Wrapped (next_closure s0) e (Caller n)"
  let ?c = "set_connected k True s2"
  have reg: "?w \<in> set (registered e s2)"
    unfolding assms(2) by (rule registered_run) (rule registered_on(1) [OF assms(1)])
  have c: "socket ?c = Some k" "k < length (sockets ?c)" "listeners ?c = listeners s2"
      "\<not> reserved_queued ?c"
    using assms(3,4,6) by (simp_all add: set_connected_def reserved_queued_def)
  have f: "transport_connect P k s2 = invoke P ConnectHook [] ?c"
    by (rule connect_hook_fires [OF assms(4,5)])
  obtain s3 where s3: "invoke P ConnectHook [] ?c = Done s3" "queue s3 = []"
      "sockets s3
        = (sockets ?c)[k := (sockets ?c ! k)\<lparr>bound := bound (sockets ?c ! k) @ rebound (listeners ?c)\<rparr>]"
    using connect_hook_rebinds [OF c(1,2,4), of P "[]"] by blast
  have len: "k < length (sockets s3)" unfolding s3(3) using c(2) by simp
  have "(e, ?w, False) \<in> set (bound (sockets s3 ! k))"
    unfolding s3(3) c(3) using c(2) registered_rebound [OF reg] by simp
  then have att: "(?w, False) \<in> set (listeners_of e (sockets s3 ! k))"
    by (force simp: listeners_of_def)
  have r3: "\<not> reserved_queued s3" by (simp add: reserved_queued_def s3(2))
  have "\<exists>s4 ex. fire_all P k e [raw] (listeners_of e (sockets s3 ! k)) s3 = Done s4
          \<and> trace s4 = trace s3 @ ex \<and> HandlerCall n d \<in> set ex"
    by (rule fire_calls_handler [OF att r3 assms(7)]) (simp add: arg0_def assms(8))
  then have "\<exists>s4 ex. sock_fire P k e [raw] s3 = Done s4 \<and> trace s4 = trace s3 @ ex
          \<and> HandlerCall n d \<in> set ex"
    using len by (simp add: sock_fire_def)
  then show ?thesis using reg att f s3(1) by simp
qed

text \<open>The witness of C5: \<open>on("message", h)\<close>, a transport drop, \<open>reconnect()\<close>; the
  new socket has no \<open>message\<close> listener until it connects, and then a \<open>message\<close>
  event calls \<open>h\<close>.\<close>

theorem C5_listener_reattached_on_reconnect_witness:
  "on test_params ''message'' (Caller 1) async_connected = Inr listening
   \<and> reconnected = run test_params [EnvDisconnect 0 (VStr ''transport close''), Reconnect] listening
   \<and> socket reconnected = Some 1
   \<and> listeners_of ''connect'' (sockets reconnected ! 1) = [(ConnectHook, False)]
   \<and> \<not> reserved_queued reconnected
   \<and> listeners_of ''message'' (sockets reconnected ! 1) = []
   \<and> listeners_of ''message'' (sockets (state_of (transport_connect test_params 1 reconnected)) ! 1)
       = [(Wrapped 0 ''message'' (Caller 1), False)]
   \<and> trace (state_of (sock_fire test_params 1 ''message'' [text_payload ''again'']
              (state_of (transport_connect test_params 1 reconnected))))
       = [OnConnect, OnDisconnect (VStr ''transport close''), TransportDisconnect 0, OnConnect,
          HandlerCall 1 (text_payload ''again'')]"
proof -
  have a: "on test_params ''message'' (Caller 1) async_connected = Inr listening"
    unfolding async_connected_eq listening_eq by (simp add: eval_defs)
  have b: "socket reconnected = Some 1" "1 < length (sockets reconnected)"
    "listeners_of ''connect'' (sockets reconnected ! 1) = [(ConnectHook, False)]"
    "\<not> reserved_queued reconnected"
    unfolding reconnected_eq by (simp_all add: listeners_of_def reserved_queued_def)
  have c: "onEvents test_params ''message'' = Some \<lparr>response = text_schema\<rparr>"
    by (simp add: test_params_def)
  have d: "response \<lparr>response = text_schema\<rparr> (text_payload ''again'') = Success (text_payload ''again'')"
    by (simp add: eval_defs)
  show ?thesis
    using C5_listener_reattached_on_reconnect [OF a reconnected_def b c d]
    unfolding async_connected_eq listening_eq reconnected_eq by (simp add: eval_defs)
qed

section \<open>waitFor after a validation failure\<close>

subsection \<open>off removes no wrapper\<close>







end
